theory Spec2Isabelle
  imports Main "HOL-Library.Sublist"
begin

section \<open>JavaScript strings\<close>

text \<open>
  A JavaScript string is a sequence of UTF-16 code units. The Hangul syllables the
  scraper looks for are all in the Basic Multilingual Plane, one code unit each; they are
  written here by their code point. ASCII text is written as an Isabelle string and
  converted with \<open>asc\<close>.
\<close>

type_synonym cu = nat
type_synonym jstr = "cu list"

definition asc :: "string \<Rightarrow> jstr" where
  "asc = map of_char"

text \<open>\<open>\d\<close> of a regular expression without the \<open>u\<close> flag: the ten ASCII digits.\<close>

definition is_digit :: "cu \<Rightarrow> bool" where
  "is_digit c = (48 \<le> c \<and> c \<le> 57)"

text \<open>
  \<open>\s\<close>, and the characters \<open>String.prototype.trim\<close> removes: ECMAScript's WhiteSpace and
  LineTerminator code points (TAB, LF, VT, FF, CR, SP, NBSP, U+1680, U+2000 to U+200A,
  U+2028, U+2029, U+202F, U+205F, U+3000, U+FEFF).
\<close>

definition is_space :: "cu \<Rightarrow> bool" where
  "is_space c = (c = 9 \<or> c = 10 \<or> c = 11 \<or> c = 12 \<or> c = 13 \<or> c = 32 \<or> c = 160
     \<or> c = 0x1680 \<or> (0x2000 \<le> c \<and> c \<le> 0x200A) \<or> c = 0x2028 \<or> c = 0x2029
     \<or> c = 0x202F \<or> c = 0x205F \<or> c = 0x3000 \<or> c = 0xFEFF)"

definition trim :: "jstr \<Rightarrow> jstr" where
  "trim s = rev (dropWhile is_space (rev (dropWhile is_space s)))"

text \<open>\<open>s.includes(t)\<close>: \<open>t\<close> occurs in \<open>s\<close> as a contiguous run.\<close>

definition str_includes :: "jstr \<Rightarrow> jstr \<Rightarrow> bool" where
  "str_includes s t = sublist t s"

text \<open>\<open>s.split(c)\<close> for a one-character separator: never the empty array.\<close>

fun split_on :: "cu \<Rightarrow> jstr \<Rightarrow> jstr list" where
  "split_on c [] = [[]]"
| "split_on c (x # xs) =
     (if x = c then [] # split_on c xs
      else (case split_on c xs of [] \<Rightarrow> [[x]] | y # ys \<Rightarrow> (x # y) # ys))"

text \<open>\<open>xs.join(sep)\<close>.\<close>

fun join :: "jstr \<Rightarrow> jstr list \<Rightarrow> jstr" where
  "join sep [] = []"
| "join sep [x] = x"
| "join sep (x # y # ys) = x @ sep @ join sep (y # ys)"

text \<open>\<open>s.replace(c, t)\<close> with a one-character string pattern: the first occurrence only.\<close>

fun replace_first :: "cu \<Rightarrow> jstr \<Rightarrow> jstr \<Rightarrow> jstr" where
  "replace_first c t [] = []"
| "replace_first c t (x # xs) = (if x = c then t @ xs else x # replace_first c t xs)"

text \<open>\<open>s.padStart(n, pad)\<close>.\<close>

definition padStart :: "nat \<Rightarrow> jstr \<Rightarrow> jstr \<Rightarrow> jstr" where
  "padStart n pad s =
     (if n \<le> length s \<or> pad = [] then s
      else take (n - length s) (concat (replicate (n - length s) pad)) @ s)"

text \<open>\<open>String(n)\<close> for a non-negative integer: its decimal digits.\<close>

fun String_of :: "nat \<Rightarrow> jstr" where
  "String_of n = (if n < 10 then [48 + n] else String_of (n div 10) @ [48 + n mod 10])"

declare String_of.simps [simp del]

text \<open>
  \<open>parseInt(s, 10)\<close> on the text of a capture group \<open>(\d{1,2})\<close>: the value of the leading
  run of digits. The groups that reach it hold at least one digit, so the \<open>NaN\<close> of a
  string without leading digit is not a case of this program.
\<close>

definition parseInt10 :: "jstr \<Rightarrow> nat" where
  "parseInt10 s = foldl (\<lambda>a c. 10 * a + (c - 48)) 0 (takeWhile is_digit s)"

section \<open>Regular expressions\<close>

text \<open>
  The regular expressions of the source are kept as data and run by one backtracking
  matcher. An atom matches one code unit; \<open>ChrI\<close> is a literal under the \<open>i\<close> flag,
  compared after canonicalisation (upper-casing), which for an ASCII letter in the
  pattern matches exactly its two cases.
\<close>

datatype atom = Chr cu | ChrI cu | Digit | Space | NonSpace

definition canon :: "cu \<Rightarrow> cu" where
  "canon c = (if 97 \<le> c \<and> c \<le> 122 then c - 32 else c)"

fun atom_ok :: "atom \<Rightarrow> cu \<Rightarrow> bool" where
  "atom_ok (Chr p) c = (c = p)"
| "atom_ok (ChrI p) c = (canon c = canon p)"
| "atom_ok Digit c = is_digit c"
| "atom_ok Space c = is_space c"
| "atom_ok NonSpace c = (\<not> is_space c)"

text \<open>
  \<open>Rep a lo hi\<close> is the greedy quantifier \<open>a{lo,hi}\<close> on an atom (\<open>hi = None\<close> for no upper
  bound: \<open>*\<close> is \<open>Rep a 0 None\<close>, \<open>+\<close> is \<open>Rep a 1 None\<close>); \<open>Opt r\<close> is \<open>(?:r)?\<close>;
  \<open>Grp r\<close> is a capturing group.
\<close>

datatype re = Atom atom | Rep atom nat "nat option" | Seq re re | Alt re re | Opt re | Grp re

fun seql :: "re list \<Rightarrow> re" where
  "seql [] = Rep Digit 0 (Some 0)"
| "seql [r] = r"
| "seql (r # rs) = Seq r (seql rs)"

fun ngroups :: "re \<Rightarrow> nat" where
  "ngroups (Atom a) = 0"
| "ngroups (Rep a lo hi) = 0"
| "ngroups (Seq r1 r2) = ngroups r1 + ngroups r2"
| "ngroups (Alt r1 r2) = ngroups r1 + ngroups r2"
| "ngroups (Opt r) = ngroups r"
| "ngroups (Grp r) = Suc (ngroups r)"

text \<open>
  \<open>rmatch r s\<close> lists every way \<open>r\<close> matches at the start of \<open>s\<close>, in the order in which a
  backtracking matcher tries them (a greedy quantifier tries the longest run first, an
  alternative its left branch first): each entry holds the capture groups, in the order
  of their opening parentheses (\<open>None\<close> for a group that took no part, JavaScript's
  \<open>undefined\<close>), and the text left after the match. The match the engine reports is the
  head of the list.
\<close>

type_synonym caps = "jstr option list"

fun rmatch :: "re \<Rightarrow> jstr \<Rightarrow> (caps \<times> jstr) list" where
  "rmatch (Atom a) s =
     (case s of [] \<Rightarrow> [] | c # cs \<Rightarrow> if atom_ok a c then [([], cs)] else [])"
| "rmatch (Rep a lo hi) s =
     (let n = length (takeWhile (atom_ok a) s);
          m = (case hi of None \<Rightarrow> n | Some h \<Rightarrow> min h n)
      in map (\<lambda>j. ([], drop j s)) (rev [lo..<Suc m]))"
| "rmatch (Seq r1 r2) s =
     concat (map (\<lambda>(c1, s1). map (\<lambda>(c2, s2). (c1 @ c2, s2)) (rmatch r2 s1)) (rmatch r1 s))"
| "rmatch (Alt r1 r2) s =
     map (\<lambda>(c, t). (c @ replicate (ngroups r2) None, t)) (rmatch r1 s)
     @ map (\<lambda>(c, t). (replicate (ngroups r1) None @ c, t)) (rmatch r2 s)"
| "rmatch (Opt r) s = rmatch r s @ [(replicate (ngroups r) None, s)]"
| "rmatch (Grp r) s =
     map (\<lambda>(c, t). (Some (take (length s - length t) s) # c, t)) (rmatch r s)"

text \<open>
  \<open>str.match(r)\<close> without the \<open>g\<close> flag: the match at the leftmost position that has one;
  the result is the matched text (\<open>m[0]\<close>) and the groups (\<open>m[1]\<close>, ...), \<open>None\<close> for
  \<open>null\<close>.
\<close>

fun rsearch :: "re \<Rightarrow> jstr \<Rightarrow> (jstr \<times> caps) option" where
  "rsearch r [] = (case rmatch r [] of [] \<Rightarrow> None | (c, t) # _ \<Rightarrow> Some ([], c))"
| "rsearch r (x # xs) =
     (case rmatch r (x # xs) of
        [] \<Rightarrow> rsearch r xs
      | (c, t) # _ \<Rightarrow> Some (take (length (x # xs) - length t) (x # xs), c))"

text \<open>
  \<open>str.replace(r, rep)\<close> with the \<open>g\<close> flag and a replacement without \<open>$\<close> patterns:
  every match, left to right, is replaced; after an empty match the next character is
  copied.
\<close>

function replace_all :: "re \<Rightarrow> jstr \<Rightarrow> jstr \<Rightarrow> jstr" where
  "replace_all r rep [] = (case rmatch r [] of [] \<Rightarrow> [] | _ # _ \<Rightarrow> rep)"
| "replace_all r rep (x # xs) =
     (case rmatch r (x # xs) of
        [] \<Rightarrow> x # replace_all r rep xs
      | (c, t) # _ \<Rightarrow>
          if length t < length (x # xs) then rep @ replace_all r rep t
          else rep @ x # replace_all r rep xs)"
  by pat_completeness auto
termination
  by (relation "measure (\<lambda>(r, rep, s). length s)") auto

section \<open>Text normalizers (scrape-roadrun.mjs)\<close>

subsection \<open>The characters and patterns of the source\<close>

text \<open>The Hangul syllables: nyeon (year), wol (month), il (day), o, jeon, hu, si (hour),
  bun (minute), pul, ha, peu.\<close>

definition k_nyeon :: cu where "k_nyeon = 0xB144"
definition k_wol :: cu where "k_wol = 0xC6D4"
definition k_il :: cu where "k_il = 0xC77C"
definition k_o :: cu where "k_o = 0xC624"
definition k_jeon :: cu where "k_jeon = 0xC804"
definition k_hu :: cu where "k_hu = 0xD6C4"
definition k_si :: cu where "k_si = 0xC2DC"
definition k_bun :: cu where "k_bun = 0xBD84"
definition k_pul :: cu where "k_pul = 0xD480"
definition k_ha :: cu where "k_ha = 0xD558"
definition k_peu :: cu where "k_peu = 0xD504"

text \<open>\<open>/\s+/g\<close>\<close>

definition re_spaces :: re where
  "re_spaces = Rep Space 1 None"

text \<open>\<open>/(\d{4})\s*Y\s*(\d{1,2})\s*M\s*(\d{1,2})\s*D/\<close> with the syllables nyeon, wol, il for
  Y, M, D.\<close>

definition re_date :: re where
  "re_date = seql [Grp (Rep Digit 4 (Some 4)), Rep Space 0 None, Atom (Chr k_nyeon),
     Rep Space 0 None, Grp (Rep Digit 1 (Some 2)), Rep Space 0 None, Atom (Chr k_wol),
     Rep Space 0 None, Grp (Rep Digit 1 (Some 2)), Rep Space 0 None, Atom (Chr k_il)]"

text \<open>\<open>/(\d{1,2}):(\d{2})/\<close>\<close>

definition re_hhmm :: re where
  "re_hhmm = seql [Grp (Rep Digit 1 (Some 2)), Atom (Chr 58), Grp (Rep Digit 2 (Some 2))]"

text \<open>\<open>/(AM|PM)(\d{1,2})H(?:(\d{1,2})M)?/\<close> with ojeon (morning) for AM, ohu (afternoon)
  for PM, si for H and bun for M.\<close>

definition re_ampm :: re where
  "re_ampm = seql [Grp (Alt (Seq (Atom (Chr k_o)) (Atom (Chr k_jeon)))
                          (Seq (Atom (Chr k_o)) (Atom (Chr k_hu)))),
     Grp (Rep Digit 1 (Some 2)), Atom (Chr k_si),
     Opt (Seq (Grp (Rep Digit 1 (Some 2))) (Atom (Chr k_bun)))]"

text \<open>\<open>/(\d{1,2})H/\<close> with si for H.\<close>

definition re_hour :: re where
  "re_hour = seql [Grp (Rep Digit 1 (Some 2)), Atom (Chr k_si)]"

text \<open>\<open>/(\d+)\s*k/i\<close>\<close>

definition re_km :: re where
  "re_km = seql [Grp (Rep Digit 1 None), Rep Space 0 None, Atom (ChrI 107)]"

text \<open>\<open>/https?:\/\/\S+/\<close>\<close>

definition re_url :: re where
  "re_url = seql [Atom (Chr 104), Atom (Chr 116), Atom (Chr 116), Atom (Chr 112),
     Rep (Chr 115) 0 (Some 1), Atom (Chr 58), Atom (Chr 47), Atom (Chr 47),
     Rep NonSpace 1 None]"

subsection \<open>clean, parseKoreanDate, parseTime, normalizeCourse\<close>

definition clean :: "jstr \<Rightarrow> jstr" where
  "clean text = trim (replace_all re_spaces (asc '' '') text)"

text \<open>
  The date library (dayjs) is not part of the repository: its constructor is a parameter.
  \<open>parseKoreanDate\<close> hands it the three captured groups joined by hyphens. The last case
  of the match is not reachable: the three groups take part in every match.
\<close>

definition parseKoreanDate :: "(jstr \<Rightarrow> 'd) \<Rightarrow> jstr \<Rightarrow> 'd option" where
  "parseKoreanDate dayjs str =
     (case rsearch re_date str of
        None \<Rightarrow> None
      | Some (m0, gs) \<Rightarrow>
          (case gs of
             [Some y, Some mo, Some d] \<Rightarrow> Some (dayjs (y @ asc ''-'' @ mo @ asc ''-'' @ d))
           | _ \<Rightarrow> None))"

text \<open>
  \<open>parseTime\<close> removes all whitespace and tries its three patterns in turn. In each
  \<open>case\<close> the first line is a match, with the groups the pattern always fills, and the
  catch-all is \<open>null\<close>, after which the next pattern is tried. \<open>minuteStr\<close> is
  \<open>undefined\<close> when the optional minutes took no part.
\<close>

definition parseTime :: "jstr \<Rightarrow> jstr option" where
  "parseTime str =
     (let s = replace_all re_spaces [] str in
      case rsearch re_hhmm s of
        Some (m0, [Some h, Some mi]) \<Rightarrow> Some (padStart 2 (asc ''0'') h @ asc '':'' @ mi)
      | _ \<Rightarrow>
     (case rsearch re_ampm s of
        Some (m0, [Some ampm, Some hourStr, minuteStr]) \<Rightarrow>
          (let hour = parseInt10 hourStr;
               minute = (case minuteStr of
                           None \<Rightarrow> 0
                         | Some ms \<Rightarrow> if ms = [] then 0 else parseInt10 ms);
               hour = (if ampm = [k_o, k_hu] \<and> hour < 12 then hour + 12 else hour);
               hour = (if ampm = [k_o, k_jeon] \<and> hour = 12 then 0 else hour);
               h = padStart 2 (asc ''0'') (String_of hour);
               mi = padStart 2 (asc ''0'') (String_of minute)
           in Some (h @ asc '':'' @ mi))
      | _ \<Rightarrow>
     (case rsearch re_hour s of
        Some (m0, [Some hs]) \<Rightarrow>
          Some (padStart 2 (asc ''0'') (String_of (parseInt10 hs)) @ asc '':00'')
      | _ \<Rightarrow> None)))"

text \<open>The function that \<open>normalizeCourse\<close> maps over the segments.\<close>

definition course_rule :: "jstr \<Rightarrow> jstr" where
  "course_rule s =
     (if str_includes s [k_pul] then asc ''full''
      else if str_includes s [k_ha, k_peu] then asc ''half''
      else (case rsearch re_km s of
              Some (m0, [Some ds]) \<Rightarrow> ds @ asc ''k''
            | _ \<Rightarrow> s))"

definition normalizeCourse :: "jstr \<Rightarrow> jstr list" where
  "normalizeCourse text =
     map course_rule (filter (\<lambda>s. s \<noteq> []) (map trim (split_on 44 text)))"


section \<open>Detail extractor (scrape-roadrun.mjs, fetchRaceDetail)\<close>

text \<open>
  The page is fetched and parsed outside the core. The extractor receives the rows that
  \<open>$("table tbody tr")\<close> selects, each row as the list of its \<open>td\<close> elements in document
  order; of a cell it reads the text and, for the homepage row, the \<open>href\<close> attribute of
  the anchors inside it (\<open>None\<close> for an anchor without the attribute).
\<close>

record cell =
  cell_text :: jstr
  cell_links :: "jstr option list"

type_synonym row = "cell list"

text \<open>The local variables that the loop over the rows assigns.\<close>

record fields =
  raceName :: jstr
  dateRaw :: jstr
  courseRaw :: jstr
  region :: jstr
  venue :: jstr
  entryRaw :: jstr
  homepage_found :: "jstr option"

record race =
  source :: jstr
  source_id :: jstr
  source_url :: jstr
  race_name :: jstr
  race_datetime :: "jstr option"
  course :: "jstr list"
  location_full :: jstr
  entry_period_raw :: jstr
  entry_start :: "jstr option"
  entry_end :: "jstr option"
  homepage :: "jstr option"

datatype error = NoRows

text \<open>The labels: event name, event date and time, event categories, region, venue,
  application period, homepage.\<close>

definition L_name :: jstr where "L_name = [0xB300, 0xD68C, 0xBA85]"
definition L_date :: jstr where "L_date = [0xB300, 0xD68C, 0xC77C, 0xC2DC]"
definition L_course :: jstr where "L_course = [0xB300, 0xD68C, 0xC885, 0xBAA9]"
definition L_region :: jstr where "L_region = [0xB300, 0xD68C, 0xC9C0, 0xC5ED]"
definition L_venue :: jstr where "L_venue = [0xB300, 0xD68C, 0xC7A5, 0xC18C]"
definition L_entry :: jstr where "L_entry = [0xC811, 0xC218, 0xAE30, 0xAC04]"
definition L_homepage :: jstr where "L_homepage = [0xD648, 0xD398, 0xC774, 0xC9C0]"

definition BASE_URL :: jstr where
  "BASE_URL = asc ''http://www.roadrun.co.kr/schedule''"

definition init_fields :: fields where
  "init_fields = \<lparr>raceName = [], dateRaw = [], courseRaw = [], region = [], venue = [],
     entryRaw = [], homepage_found = None\<rparr>"

text \<open>
  The homepage of a value cell: the \<open>href\<close> of its first anchor when that is a non-empty
  string, else the first URL-looking token of the cell's text, else nothing.
\<close>

definition cell_homepage :: "cell \<Rightarrow> jstr \<Rightarrow> jstr option" where
  "cell_homepage valueTd valueText =
     (case (case cell_links valueTd of
              Some h # _ \<Rightarrow> if h \<noteq> [] then Some h else None
            | _ \<Rightarrow> None) of
        Some h \<Rightarrow> Some h
      | None \<Rightarrow> (case rsearch re_url valueText of Some (m0, gs) \<Rightarrow> Some m0 | None \<Rightarrow> None))"

text \<open>One iteration of the loop \<open>for (const tr of trs)\<close>.\<close>

definition row_step :: "fields \<Rightarrow> row \<Rightarrow> fields" where
  "row_step st tds =
     (if length tds < 2 then st
      else
        let label = clean (cell_text (tds ! 0));
            valueTd = tds ! (length tds - 1);
            valueText = clean (cell_text valueTd)
        in if label = [] then st
           else if str_includes label L_name then st\<lparr>raceName := valueText\<rparr>
           else if str_includes label L_date then st\<lparr>dateRaw := valueText\<rparr>
           else if str_includes label L_course then st\<lparr>courseRaw := valueText\<rparr>
           else if str_includes label L_region then st\<lparr>region := valueText\<rparr>
           else if str_includes label L_venue then st\<lparr>venue := valueText\<rparr>
           else if str_includes label L_entry then st\<lparr>entryRaw := valueText\<rparr>
           else if str_includes label L_homepage then
             (case cell_homepage valueTd valueText of
                Some h \<Rightarrow> st\<lparr>homepage_found := Some h\<rparr>
              | None \<Rightarrow> st)
           else st)"

definition scan_rows :: "row list \<Rightarrow> fields" where
  "scan_rows trs = foldl row_step init_fields trs"

text \<open>
  The part of \<open>fetchRaceDetail\<close> after the loop. The date library is a parameter: \<open>dayjs\<close>
  builds a date from a string and \<open>fmt\<close> is \<open>format("YYYY-MM-DD")\<close>. A dayjs object is
  truthy, so \<open>if (dateObj)\<close> asks whether the pattern matched. \<open>entryRaw.split("~")\<close> has at
  least two parts when \<open>entryRaw\<close> contains the delimiter, so the last case of the
  destructuring is not reached.
\<close>

definition make_race :: "(jstr \<Rightarrow> 'd) \<Rightarrow> ('d \<Rightarrow> jstr) \<Rightarrow> jstr \<Rightarrow> fields \<Rightarrow> race" where
  "make_race dayjs fmt no st =
     (let raceDatetime =
            (if dateRaw st \<noteq> [] then
               (let dateObj = parseKoreanDate dayjs (dateRaw st);
                    timeStr = (case parseTime (dateRaw st) of
                                 Some t \<Rightarrow> if t \<noteq> [] then t else asc ''00:00''
                               | None \<Rightarrow> asc ''00:00'')
                in case dateObj of
                     Some d \<Rightarrow> Some (fmt d @ asc '' '' @ timeStr)
                   | None \<Rightarrow> None)
             else None);
          locationFull = join (asc '' '') (filter (\<lambda>s. s \<noteq> []) [region st, venue st]);
          entry =
            (if entryRaw st \<noteq> [] \<and> str_includes (entryRaw st) (asc ''~'') then
               (case map clean (split_on 126 (entryRaw st)) of
                  sRaw # eRaw # _ \<Rightarrow>
                    (map_option fmt (parseKoreanDate dayjs sRaw),
                     map_option fmt (parseKoreanDate dayjs eRaw))
                | _ \<Rightarrow> (None, None))
             else (None, None))
      in \<lparr>source = asc ''roadrun'',
          source_id = no,
          source_url = BASE_URL @ asc ''/view.php?no='' @ no,
          race_name = raceName st,
          race_datetime = raceDatetime,
          course = normalizeCourse (courseRaw st),
          location_full = locationFull,
          entry_period_raw = entryRaw st,
          entry_start = fst entry,
          entry_end = snd entry,
          homepage = homepage_found st\<rparr>)"

definition fetchRaceDetail ::
  "(jstr \<Rightarrow> 'd) \<Rightarrow> ('d \<Rightarrow> jstr) \<Rightarrow> jstr \<Rightarrow> row list \<Rightarrow> error + race" where
  "fetchRaceDetail dayjs fmt no trs =
     (if length trs = 0 then Inl NoRows
      else Inr (make_race dayjs fmt no (scan_rows trs)))"

section \<open>Sync engine (notion.mjs)\<close>

text \<open>The property set of a page: the keys \<open>Name\<close>, \<open>Location\<close> and \<open>Course\<close> are always
  there, the other four only when the record has the value.\<close>

record props =
  Name_title :: jstr
  Location_rich_text :: jstr
  Course_multi_select :: "jstr list"
  Race_DateTime :: "jstr option"
  Entry_Start :: "jstr option"
  Entry_End :: "jstr option"
  URL :: "jstr option"

text \<open>The placeholder title, "(no title)" in Korean.\<close>

definition no_title :: jstr where
  "no_title = [40, 0xC81C, 0xBAA9, 32, 0xC5C6, 0xC74C, 41]"

text \<open>A string-or-null value used as a condition: \<open>null\<close>, \<open>undefined\<close> and the empty
  string are falsy.\<close>

definition truthy :: "jstr option \<Rightarrow> bool" where
  "truthy v = (case v of None \<Rightarrow> False | Some s \<Rightarrow> s \<noteq> [])"

text \<open>
  The records that reach \<open>buildProperties\<close> are those \<open>fetchRaceDetail\<close> builds: they have
  no \<open>Course\<close> key and their \<open>course\<close> is an array (truthy even when empty), so
  \<open>race.Course || race.course || race.categories || []\<close> is \<open>race.course\<close>.
\<close>

definition buildProperties :: "race \<Rightarrow> props" where
  "buildProperties r =
     (let courseList = course r;
          raceStart = (if truthy (race_datetime r)
                       then Some (replace_first 32 (asc ''T'') (the (race_datetime r)) @ asc ''+09:00'')
                       else None)
      in \<lparr>Name_title = (if race_name r \<noteq> [] then race_name r else no_title),
          Location_rich_text = (if location_full r \<noteq> [] then location_full r else []),
          Course_multi_select = courseList,
          Race_DateTime = (if truthy raceStart then raceStart else None),
          Entry_Start = (if truthy (entry_start r) then entry_start r else None),
          Entry_End = (if truthy (entry_end r) then entry_end r else None),
          URL = (if truthy (homepage r) then homepage r else None)\<rparr>)"

text \<open>
  The process environment and the outside world. A promise either rejects or resolves.
  The store is reached through three operations, taken as parameters over a state of the
  world: the HTTP query (\<open>fetch\<close> on the database's query endpoint with the title filter),
  and the SDK's \<open>pages.update\<close> and \<open>pages.create\<close>; the SDK client is built with the
  token, which may be undefined. Of a response the code reads \<open>ok\<close> and, on an \<open>ok\<close>
  response, \<open>(await res.json()).results\<close>: the body is \<open>Rejects\<close> when it is not JSON,
  \<open>Resolves None\<close> when \<open>results\<close> is missing. A response that has arrived is taken
  to be readable: \<open>res.text()\<close>, read only for the log line of a response that is not
  \<open>ok\<close>, does not fail. The console output is not modelled.
\<close>

record config =
  NOTION_TOKEN :: "jstr option"
  DB_ID :: "jstr option"

datatype 'a io = Rejects | Resolves 'a

record pageobj =
  page_id :: jstr
  page_props :: props

record response =
  ok :: bool
  results :: "pageobj list option io"

record 'w notion_env =
  fetch_query :: "jstr \<Rightarrow> jstr \<Rightarrow> jstr \<Rightarrow> 'w \<Rightarrow> response io \<times> 'w"
  pages_update :: "jstr option \<Rightarrow> jstr \<Rightarrow> props \<Rightarrow> 'w \<Rightarrow> unit io \<times> 'w"
  pages_create :: "jstr option \<Rightarrow> jstr \<Rightarrow> props \<Rightarrow> 'w \<Rightarrow> unit io \<times> 'w"

text \<open>The requests issued, in order: the observable behaviour of an upsert.\<close>

datatype call = Query jstr jstr | Update jstr props | Create jstr props

datatype notion_error = TransportError | BodyError | ApiError

definition queryByRaceName ::
  "config \<Rightarrow> 'w notion_env \<Rightarrow> jstr \<Rightarrow> 'w \<Rightarrow> (notion_error + pageobj list) \<times> call list \<times> 'w" where
  "queryByRaceName cfg env name w =
     (if \<not> truthy (DB_ID cfg) then (Inr [], [], w)
      else if \<not> truthy (NOTION_TOKEN cfg) then (Inr [], [], w)
      else
        (case fetch_query env (the (DB_ID cfg)) (the (NOTION_TOKEN cfg)) name w of
           (Rejects, w') \<Rightarrow> (Inl TransportError, [Query (the (DB_ID cfg)) name], w')
         | (Resolves res, w') \<Rightarrow>
             if \<not> ok res then (Inr [], [Query (the (DB_ID cfg)) name], w')
             else (case results res of
                     Rejects \<Rightarrow> (Inl BodyError, [Query (the (DB_ID cfg)) name], w')
                   | Resolves data \<Rightarrow>
                       (Inr (case data of None \<Rightarrow> [] | Some ps \<Rightarrow> ps),
                        [Query (the (DB_ID cfg)) name], w'))))"

definition upsertRaceToNotion ::
  "config \<Rightarrow> 'w notion_env \<Rightarrow> race \<Rightarrow> 'w \<Rightarrow> (notion_error + unit) \<times> call list \<times> 'w" where
  "upsertRaceToNotion cfg env r w =
     (if \<not> truthy (DB_ID cfg) then (Inr (), [], w)
      else
        (case queryByRaceName cfg env (race_name r) w of
           (Inl e, cs, w1) \<Rightarrow> (Inl e, cs, w1)
         | (Inr existing, cs, w1) \<Rightarrow>
             (let properties = buildProperties r in
              case existing of
                p # _ \<Rightarrow>
                  (case pages_update env (NOTION_TOKEN cfg) (page_id p) properties w1 of
                     (Rejects, w2) \<Rightarrow> (Inl ApiError, cs @ [Update (page_id p) properties], w2)
                   | (Resolves u, w2) \<Rightarrow> (Inr (), cs @ [Update (page_id p) properties], w2))
              | [] \<Rightarrow>
                  (case pages_create env (NOTION_TOKEN cfg) (the (DB_ID cfg)) properties w1 of
                     (Rejects, w2) \<Rightarrow>
                       (Inl ApiError, cs @ [Create (the (DB_ID cfg)) properties], w2)
                   | (Resolves u, w2) \<Rightarrow>
                       (Inr (), cs @ [Create (the (DB_ID cfg)) properties], w2)))))"

text \<open>
  A reference store, for the claims about successive upserts: it holds the pages created
  so far, answers a query with the pages whose title equals the filter, in creation
  order, replaces the properties of the page an update names and appends a page with a
  new identifier on a create. It never fails.
\<close>

definition store_env :: "pageobj list notion_env" where
  "store_env =
     \<lparr>fetch_query = (\<lambda>db tok name w.
        (Resolves \<lparr>ok = True,
                   results = Resolves (Some (filter (\<lambda>p. Name_title (page_props p) = name) w))\<rparr>,
         w)),
      pages_update = (\<lambda>tok pid ps w.
        (Resolves (), map (\<lambda>p. if page_id p = pid then p\<lparr>page_props := ps\<rparr> else p) w)),
      pages_create = (\<lambda>tok db ps w.
        (Resolves (), w @ [\<lparr>page_id = String_of (length w), page_props = ps\<rparr>]))\<rparr>"

section \<open>The patterns as the specification describes them\<close>

text \<open>
  The specification describes each pattern in words. The definitions of this section
  follow those words and make no use of the matcher: they read a pattern off the start
  of a text with \<open>takeWhile\<close> and \<open>dropWhile\<close>, and \<open>first_at\<close> takes the leftmost
  position where a pattern is found. The theorems below relate them to the regular
  expressions of the source.
\<close>

text \<open>The longest run of digits at the start, when its length is within the bounds.\<close>

definition digit_run :: "nat \<Rightarrow> nat option \<Rightarrow> jstr \<Rightarrow> (jstr \<times> jstr) option" where
  "digit_run lo hi s =
     (if lo \<le> length (takeWhile is_digit s)
         \<and> (case hi of None \<Rightarrow> True | Some h \<Rightarrow> length (takeWhile is_digit s) \<le> h)
      then Some (takeWhile is_digit s, dropWhile is_digit s) else None)"

text \<open>Exactly \<open>k\<close> characters, all digits.\<close>

definition digits_exact :: "nat \<Rightarrow> jstr \<Rightarrow> (jstr \<times> jstr) option" where
  "digits_exact k s =
     (if k \<le> length s \<and> list_all is_digit (take k s) then Some (take k s, drop k s) else None)"

definition lit_at :: "cu \<Rightarrow> jstr \<Rightarrow> jstr option" where
  "lit_at c s = (case s of [] \<Rightarrow> None | x # xs \<Rightarrow> if x = c then Some xs else None)"

definition skip_spaces :: "jstr \<Rightarrow> jstr" where
  "skip_spaces s = dropWhile is_space s"

fun first_at :: "(jstr \<Rightarrow> 'a option) \<Rightarrow> jstr \<Rightarrow> 'a option" where
  "first_at f [] = f []"
| "first_at f (x # xs) = (case f (x # xs) of Some r \<Rightarrow> Some r | None \<Rightarrow> first_at f xs)"

text \<open>A four-digit year, the year sign, a month of one or two digits, the month sign, a
  day of one or two digits, the day sign, with optional whitespace around each unit.\<close>

definition date_at :: "jstr \<Rightarrow> (jstr \<times> jstr \<times> jstr) option" where
  "date_at s =
     (case digits_exact 4 s of None \<Rightarrow> None | Some (y, s1) \<Rightarrow>
     (case lit_at k_nyeon (skip_spaces s1) of None \<Rightarrow> None | Some s2 \<Rightarrow>
     (case digit_run 1 (Some 2) (skip_spaces s2) of None \<Rightarrow> None | Some (mo, s3) \<Rightarrow>
     (case lit_at k_wol (skip_spaces s3) of None \<Rightarrow> None | Some s4 \<Rightarrow>
     (case digit_run 1 (Some 2) (skip_spaces s4) of None \<Rightarrow> None | Some (d, s5) \<Rightarrow>
     (case lit_at k_il (skip_spaces s5) of None \<Rightarrow> None | Some rest \<Rightarrow> Some (y, mo, d)))))))"

text \<open>The same pattern, stated as a decomposition of the text: \<open>t\<close> begins with the year
  \<open>y\<close>, the month \<open>mo\<close> and the day \<open>d\<close>, each followed by its sign, with any amount of
  whitespace in between.\<close>

definition date_text :: "jstr \<Rightarrow> jstr \<Rightarrow> jstr \<Rightarrow> jstr \<Rightarrow> bool" where
  "date_text y mo d t \<longleftrightarrow>
     length y = 4 \<and> list_all is_digit y \<and>
     (length mo = 1 \<or> length mo = 2) \<and> list_all is_digit mo \<and>
     (length d = 1 \<or> length d = 2) \<and> list_all is_digit d \<and>
     (\<exists>w1 w2 w3 w4 w5 rest.
        list_all is_space w1 \<and> list_all is_space w2 \<and> list_all is_space w3 \<and>
        list_all is_space w4 \<and> list_all is_space w5 \<and>
        t = y @ w1 @ [k_nyeon] @ w2 @ mo @ w3 @ [k_wol] @ w4 @ d @ w5 @ [k_il] @ rest)"

text \<open>Pattern 1 of the time of day: \<open>H:MM\<close> or \<open>HH:MM\<close>.\<close>

definition hhmm_at :: "jstr \<Rightarrow> (jstr \<times> jstr) option" where
  "hhmm_at s =
     (case digit_run 1 (Some 2) s of None \<Rightarrow> None | Some (h, s1) \<Rightarrow>
     (case lit_at 58 s1 of None \<Rightarrow> None | Some s2 \<Rightarrow>
     (case digits_exact 2 s2 of None \<Rightarrow> None | Some (mi, rest) \<Rightarrow> Some (h, mi))))"

text \<open>Pattern 2: the morning or afternoon marker (\<open>True\<close> for afternoon), an hour of one
  or two digits with the hour sign, and optionally minutes of one or two digits with the
  minute sign.\<close>

definition marker_at :: "jstr \<Rightarrow> (bool \<times> jstr) option" where
  "marker_at s =
     (case lit_at k_o s of None \<Rightarrow> None | Some s1 \<Rightarrow>
     (case lit_at k_jeon s1 of Some r \<Rightarrow> Some (False, r) | None \<Rightarrow>
     (case lit_at k_hu s1 of Some r \<Rightarrow> Some (True, r) | None \<Rightarrow> None)))"

definition minutes_at :: "jstr \<Rightarrow> jstr option" where
  "minutes_at s =
     (case digit_run 1 (Some 2) s of None \<Rightarrow> None | Some (m, s1) \<Rightarrow>
     (case lit_at k_bun s1 of None \<Rightarrow> None | Some r \<Rightarrow> Some m))"

definition ampm_at :: "jstr \<Rightarrow> (bool \<times> jstr \<times> jstr option) option" where
  "ampm_at s =
     (case marker_at s of None \<Rightarrow> None | Some (pm, s1) \<Rightarrow>
     (case digit_run 1 (Some 2) s1 of None \<Rightarrow> None | Some (h, s2) \<Rightarrow>
     (case lit_at k_si s2 of None \<Rightarrow> None | Some s3 \<Rightarrow> Some (pm, h, minutes_at s3))))"

text \<open>Pattern 3: a bare hour of one or two digits with the hour sign.\<close>

definition hour_at :: "jstr \<Rightarrow> jstr option" where
  "hour_at s =
     (case digit_run 1 (Some 2) s of None \<Rightarrow> None | Some (h, s1) \<Rightarrow>
     (case lit_at k_si s1 of None \<Rightarrow> None | Some r \<Rightarrow> Some h))"

text \<open>
  The hour of pattern 2 on the 24-hour clock: afternoon maps the hours 1 to 11 to +12,
  morning maps 12 to 0, morning 1 to 11 and afternoon 12 pass through. The specification
  says nothing of an afternoon hour 0 (the source makes it 12) nor of hours above 12 (the
  source leaves them).
\<close>

definition clock_hour :: "bool \<Rightarrow> nat \<Rightarrow> nat" where
  "clock_hour pm h =
     (if pm \<and> 1 \<le> h \<and> h \<le> 11 then h + 12
      else if \<not> pm \<and> h = 12 then 0
      else if pm \<and> h = 0 then 12
      else h)"

definition two_digits :: "nat \<Rightarrow> jstr" where
  "two_digits n = padStart 2 (asc ''0'') (String_of n)"

text \<open>\<open>parseTimeOfDay\<close> of the specification: the three patterns in order on the text
  without its whitespace, the first that is found wins.\<close>

definition parseTimeOfDay_spec :: "jstr \<Rightarrow> jstr option" where
  "parseTimeOfDay_spec t =
     (let s = filter (\<lambda>c. \<not> is_space c) t in
      case first_at hhmm_at s of
        Some (h, mi) \<Rightarrow> Some (padStart 2 (asc ''0'') h @ asc '':'' @ mi)
      | None \<Rightarrow>
     (case first_at ampm_at s of
        Some (pm, h, mo) \<Rightarrow>
          Some (two_digits (clock_hour pm (parseInt10 h)) @ asc '':''
                @ two_digits (case mo of None \<Rightarrow> 0 | Some m \<Rightarrow> parseInt10 m))
      | None \<Rightarrow>
     (case first_at hour_at s of
        Some h \<Rightarrow> Some (two_digits (parseInt10 h) @ asc '':00'')
      | None \<Rightarrow> None)))"

text \<open>
  The distance pattern of the categories, in two readings. \<open>km_strict_at\<close> is the
  specification's \<open><digits>k\<close>: a run of digits with a \<open>k\<close> or \<open>K\<close> right after it.
  \<open>km_at\<close> also allows whitespace between the digits and the letter.
\<close>

definition km_strict_at :: "jstr \<Rightarrow> jstr option" where
  "km_strict_at s =
     (case digit_run 1 None s of None \<Rightarrow> None | Some (ds, s1) \<Rightarrow>
     (case s1 of [] \<Rightarrow> None | c # r \<Rightarrow> if c = 107 \<or> c = 75 then Some ds else None))"

definition km_at :: "jstr \<Rightarrow> jstr option" where
  "km_at s =
     (case digit_run 1 None s of None \<Rightarrow> None | Some (ds, s1) \<Rightarrow>
     (case skip_spaces s1 of [] \<Rightarrow> None | c # r \<Rightarrow> if c = 107 \<or> c = 75 then Some ds else None))"

text \<open>\<open>normalizeCategories\<close> of the specification, for a given reading \<open>km\<close> of the
  distance pattern: the first rule that applies to a segment decides.\<close>

definition category_rule :: "(jstr \<Rightarrow> jstr option) \<Rightarrow> jstr \<Rightarrow> jstr" where
  "category_rule km s =
     (if str_includes s [k_pul] then asc ''full''
      else if str_includes s [k_ha, k_peu] then asc ''half''
      else (case first_at km s of Some ds \<Rightarrow> ds @ asc ''k'' | None \<Rightarrow> s))"

definition normalizeCategories_spec :: "(jstr \<Rightarrow> jstr option) \<Rightarrow> jstr \<Rightarrow> jstr list" where
  "normalizeCategories_spec km t =
     map (category_rule km) (filter (\<lambda>s. s \<noteq> []) (map trim (split_on 44 t)))"

section \<open>The date library\<close>

text \<open>
  \<open>parseKoreanDate\<close> returns what the date library, dayjs, builds from the string
  \<open>Y-M-D\<close>. The library is not part of the repository; this section models what it does
  with the strings of that shape, four digits, a hyphen, one or two digits, a hyphen and
  one or two digits, which are the only ones \<open>parseKoreanDate\<close> hands to it: it reads the
  three numbers and calls \<open>new Date(year, month - 1, day)\<close>. Any other string is
  \<open>OtherInput\<close>. A date object is modelled by the calendar day it stands for, \<open>OnDay\<close>
  with the year, the month from 1 to 12 and the day of the month.
\<close>

datatype dayjs_obj = OnDay int nat nat | OtherInput

definition leap_year :: "int \<Rightarrow> bool" where
  "leap_year y = (y mod 4 = 0 \<and> (y mod 100 \<noteq> 0 \<or> y mod 400 = 0))"

definition days_in_month :: "int \<Rightarrow> nat \<Rightarrow> nat" where
  "days_in_month y m =
     (if m = 1 then (if leap_year y then 29 else 28)
      else if m = 3 \<or> m = 5 \<or> m = 8 \<or> m = 10 then 30
      else 31)"

text \<open>
  The day arithmetic of \<open>new Date\<close>, for a month index from 0 to 11 and a day number: day
  0 is the last day of the month before, and a day beyond the end of the month runs on
  into the following months.
\<close>

function roll_days :: "int \<Rightarrow> nat \<Rightarrow> nat \<Rightarrow> dayjs_obj" where
  "roll_days y m d =
     (if d = 0 then
        (if m = 0 then OnDay (y - 1) 12 (days_in_month (y - 1) 11)
         else OnDay y m (days_in_month y (m - 1)))
      else if days_in_month y m < d then
        (if m = 11 then roll_days (y + 1) 0 (d - days_in_month y m)
         else roll_days y (m + 1) (d - days_in_month y m))
      else OnDay y (m + 1) d)"
  by pat_completeness auto
termination
  by (relation "measure (\<lambda>(y, m, d). d)") (auto simp: days_in_month_def)

declare roll_days.simps [simp del]

text \<open>
  \<open>new Date(year, month, date)\<close> in local time: a year from 0 to 99 stands for 1900 plus
  that year, and a month index outside 0 to 11 moves the year.
\<close>

definition new_Date :: "int \<Rightarrow> int \<Rightarrow> nat \<Rightarrow> dayjs_obj" where
  "new_Date year month date =
     (let yr = (if 0 \<le> year \<and> year \<le> 99 then 1900 + year else year)
      in roll_days (yr + month div 12) (nat (month mod 12)) date)"

definition dayjs_lib :: "jstr \<Rightarrow> dayjs_obj" where
  "dayjs_lib s =
     (case digits_exact 4 s of None \<Rightarrow> OtherInput | Some (y, s1) \<Rightarrow>
     (case lit_at 45 s1 of None \<Rightarrow> OtherInput | Some s2 \<Rightarrow>
     (case digit_run 1 (Some 2) s2 of None \<Rightarrow> OtherInput | Some (mo, s3) \<Rightarrow>
     (case lit_at 45 s3 of None \<Rightarrow> OtherInput | Some s4 \<Rightarrow>
     (case digit_run 1 (Some 2) s4 of None \<Rightarrow> OtherInput | Some (d, rest) \<Rightarrow>
        if rest = []
        then new_Date (int (parseInt10 y)) (int (parseInt10 mo) - 1) (parseInt10 d)
        else OtherInput)))))"

text \<open>A year, month and day that name a day of the calendar, with a year the date
  constructor takes as it is.\<close>

definition valid_date :: "nat \<Rightarrow> nat \<Rightarrow> nat \<Rightarrow> bool" where
  "valid_date y m d \<longleftrightarrow>
     100 \<le> y \<and> 1 \<le> m \<and> m \<le> 12 \<and> 1 \<le> d \<and> d \<le> days_in_month (int y) (m - 1)"

section \<open>The rows of a detail document as the specification describes them\<close>

text \<open>
  The label a row is dispatched to: the first of the recognized labels, in the fixed
  order of the source, that the whitespace-collapsed first cell contains; a row with
  fewer than two cells has none. The value of a row is the whitespace-collapsed text of
  its last cell, its link the homepage found in that cell.
\<close>

datatype label_kind = LName | LDate | LCourse | LRegion | LVenue | LEntry | LHomepage

definition row_label :: "row \<Rightarrow> label_kind option" where
  "row_label tds =
     (if length tds < 2 then None
      else
        let label = clean (cell_text (hd tds))
        in if str_includes label L_name then Some LName
           else if str_includes label L_date then Some LDate
           else if str_includes label L_course then Some LCourse
           else if str_includes label L_region then Some LRegion
           else if str_includes label L_venue then Some LVenue
           else if str_includes label L_entry then Some LEntry
           else if str_includes label L_homepage then Some LHomepage
           else None)"

definition row_value :: "row \<Rightarrow> jstr" where
  "row_value tds = clean (cell_text (last tds))"

definition row_link :: "row \<Rightarrow> jstr option" where
  "row_link tds = cell_homepage (last tds) (clean (cell_text (last tds)))"

definition last_value :: "label_kind \<Rightarrow> row list \<Rightarrow> jstr" where
  "last_value k trs =
     (let rs = filter (\<lambda>r. row_label r = Some k) trs
      in if rs = [] then [] else row_value (last rs))"

definition last_link :: "row list \<Rightarrow> jstr option" where
  "last_link trs =
     (let rs = filter (\<lambda>r. row_label r = Some LHomepage \<and> row_link r \<noteq> None) trs
      in if rs = [] then None else row_link (last rs))"

text \<open>
  The reading of "the last row matching a label" by substring match alone, without the
  order of the labels.
\<close>

definition last_matching_value :: "jstr \<Rightarrow> row list \<Rightarrow> jstr" where
  "last_matching_value lbl trs =
     (let rs = filter (\<lambda>r. r \<noteq> [] \<and> str_includes (clean (cell_text (hd r))) lbl) trs
      in if rs = [] then [] else row_value (last rs))"

definition last_matching_link :: "jstr \<Rightarrow> row list \<Rightarrow> jstr option" where
  "last_matching_link lbl trs =
     (let rs = filter (\<lambda>r. r \<noteq> [] \<and> str_includes (clean (cell_text (hd r))) lbl) trs
      in if rs = [] then None else row_link (last rs))"

text \<open>Example documents: cells without and with an anchor.\<close>

definition td :: "jstr \<Rightarrow> cell" where
  "td s = \<lparr>cell_text = s, cell_links = []\<rparr>"

definition td_link :: "jstr \<Rightarrow> jstr \<Rightarrow> cell" where
  "td_link s href = \<lparr>cell_text = s, cell_links = [Some href]\<rparr>"

definition doc_cx :: "row list" where
  "doc_cx = [[td L_date, td (asc ''A'')],
             [td (L_name @ asc '' / '' @ L_date), td (asc ''B'')],
             [td L_homepage, td_link (asc ''site'') (asc ''http://a'')],
             [td L_homepage, td (asc ''-'')]]"

definition doc_one :: "row list" where
  "doc_one = [[td L_date, td (asc ''2026'' @ [k_nyeon] @ asc '' 1'' @ [k_wol] @ asc ''11'' @ [k_il])]]"

section \<open>Observations and examples for the sync engine\<close>

text \<open>The requests an upsert or a query issued.\<close>

definition calls_of :: "'a \<times> call list \<times> 'w \<Rightarrow> call list" where
  "calls_of x = fst (snd x)"

text \<open>An example record with a given name, a complete configuration, and an environment
  that answers every query, update and create the same way.\<close>

definition race_named :: "jstr \<Rightarrow> race" where
  "race_named n =
     \<lparr>source = asc ''roadrun'', source_id = asc ''7'',
      source_url = BASE_URL @ asc ''/view.php?no=7'', race_name = n, race_datetime = None,
      course = [], location_full = [], entry_period_raw = [], entry_start = None,
      entry_end = None, homepage = None\<rparr>"

definition cfg_ok :: config where
  "cfg_ok = \<lparr>NOTION_TOKEN = Some (asc ''secret''), DB_ID = Some (asc ''db'')\<rparr>"

definition const_env :: "response io \<Rightarrow> unit io \<Rightarrow> unit io \<Rightarrow> unit notion_env" where
  "const_env q u c =
     \<lparr>fetch_query = (\<lambda>db tok name w. (q, w)),
      pages_update = (\<lambda>tok pid ps w. (u, w)),
      pages_create = (\<lambda>tok db ps w. (c, w))\<rparr>"

text \<open>Two successive upserts of the same record against the reference store, with the
  complete configuration: the requests of the second upsert and the final store.\<close>

definition upsert_twice :: "race \<Rightarrow> pageobj list \<Rightarrow> call list \<times> pageobj list" where
  "upsert_twice r w =
     (case upsertRaceToNotion cfg_ok store_env r w of
        (res1, cs1, w1) \<Rightarrow>
          (case upsertRaceToNotion cfg_ok store_env r w1 of
             (res2, cs2, w2) \<Rightarrow> (cs2, w2)))"

section \<open>The matcher on the patterns of the source\<close>

subsection \<open>A quantifier followed by a pattern that rejects its characters\<close>

lemma concat_map_all_Nil: "(\<And>x. x \<in> set xs \<Longrightarrow> f x = []) \<Longrightarrow> concat (map f xs) = []"
  by (induction xs) auto

lemma drop_takeWhile_len: "drop (length (takeWhile P s)) s = dropWhile P s"
  by (rule dropWhile_eq_drop [symmetric])

lemma take_takeWhile_len: "take (length (takeWhile P s)) s = takeWhile P s"
  by (rule takeWhile_eq_take [symmetric])

lemma drop_lt_takeWhile:
  assumes "j < length (takeWhile P s)"
  shows "\<exists>c t. drop j s = c # t \<and> P c"
proof -
  have j: "j < length s" using assms length_takeWhile_le [of P s] by simp
  have "P (s ! j)" using assms by (metis nth_mem set_takeWhileD takeWhile_nth)
  moreover have "drop j s = s ! j # drop (Suc j) s" using j by (simp add: Cons_nth_drop_Suc)
  ultimately show ?thesis by blast
qed

lemma rmatch_Rep_exact:
  "rmatch (Rep a k (Some k)) s =
     (if k \<le> length (takeWhile (atom_ok a) s) then [([], drop k s)] else [])"
  by (simp add: Let_def min_def)

lemma rmatch_Seq_Rep:
  assumes rej: "\<And>c t. atom_ok a c \<Longrightarrow> rmatch r (c # t) = []"
  shows "rmatch (Seq (Rep a lo hi) r) s =
     (if lo \<le> length (takeWhile (atom_ok a) s)
         \<and> (case hi of None \<Rightarrow> True | Some h \<Rightarrow> length (takeWhile (atom_ok a) s) \<le> h)
      then rmatch r (dropWhile (atom_ok a) s) else [])"
proof -
  define n where "n = length (takeWhile (atom_ok a) s)"
  define m where "m = (case hi of None \<Rightarrow> n | Some h \<Rightarrow> min h n)"
  define C where "C \<longleftrightarrow> lo \<le> n \<and> (case hi of None \<Rightarrow> True | Some h \<Rightarrow> n \<le> h)"
  have mn: "m \<le> n" by (simp add: m_def split: option.splits)
  have C_iff: "C \<longleftrightarrow> lo \<le> n \<and> m = n"
    by (auto simp: C_def m_def min_def split: option.splits if_splits)
  have unf: "rmatch (Seq (Rep a lo hi) r) s = concat (map (\<lambda>j. rmatch r (drop j s)) (rev [lo..<Suc m]))"
    unfolding n_def m_def by (simp add: Let_def comp_def del: upt_Suc)
  have small: "rmatch r (drop j s) = []" if "j < n" for j
    using drop_lt_takeWhile [of j "atom_ok a" s] that rej by (auto simp: n_def)
  have main: "rmatch (Seq (Rep a lo hi) r) s = (if C then rmatch r (drop n s) else [])"
  proof (cases C)
    case True
    then have "rev [lo..<Suc m] = n # rev [lo..<n]" by (simp add: C_iff)
    moreover have "concat (map (\<lambda>j. rmatch r (drop j s)) (rev [lo..<n])) = []"
      by (rule concat_map_all_Nil) (simp add: small)
    ultimately have "concat (map (\<lambda>j. rmatch r (drop j s)) (rev [lo..<Suc m])) = rmatch r (drop n s)"
      by simp
    with unf True show ?thesis by (simp only: if_True)
  next
    case False
    have "concat (map (\<lambda>j. rmatch r (drop j s)) (rev [lo..<Suc m])) = []"
    proof (rule concat_map_all_Nil)
      fix j assume "j \<in> set (rev [lo..<Suc m])"
      then have "lo \<le> j" "j \<le> m" by auto
      with False mn have "j < n" unfolding C_iff by linarith
      then show "rmatch r (drop j s) = []" by (rule small)
    qed
    with unf False show ?thesis by (simp only: if_False)
  qed
  show ?thesis
    using main unfolding C_def n_def by (simp only: drop_takeWhile_len)
qed

lemma rmatch_Seq_Grp_Rep:
  assumes rej: "\<And>c t. atom_ok a c \<Longrightarrow> rmatch r (c # t) = []"
  shows "rmatch (Seq (Grp (Rep a lo hi)) r) s =
     (if lo \<le> length (takeWhile (atom_ok a) s)
         \<and> (case hi of None \<Rightarrow> True | Some h \<Rightarrow> length (takeWhile (atom_ok a) s) \<le> h)
      then map (\<lambda>(c, t). (Some (takeWhile (atom_ok a) s) # c, t)) (rmatch r (dropWhile (atom_ok a) s))
      else [])"
proof -
  define n where "n = length (takeWhile (atom_ok a) s)"
  define m where "m = (case hi of None \<Rightarrow> n | Some h \<Rightarrow> min h n)"
  define C where "C \<longleftrightarrow> lo \<le> n \<and> (case hi of None \<Rightarrow> True | Some h \<Rightarrow> n \<le> h)"
  define g where "g = (\<lambda>j. map (\<lambda>(c, t). (Some (take j s) # c, t)) (rmatch r (drop j s)))"
  have mn: "m \<le> n" by (simp add: m_def split: option.splits)
  have nl: "n \<le> length s" unfolding n_def by (rule length_takeWhile_le)
  have C_iff: "C \<longleftrightarrow> lo \<le> n \<and> m = n"
    by (auto simp: C_def m_def min_def split: option.splits if_splits)
  have grp: "rmatch (Grp (Rep a lo hi)) s = map (\<lambda>j. ([Some (take j s)], drop j s)) (rev [lo..<Suc m])"
  proof -
    have "(length s - (length s - j)) = j" if "j \<in> set (rev [lo..<Suc m])" for j
      using that mn nl by auto
    then have "map (\<lambda>j. (Some (take (length s - length (drop j s)) s) # [], drop j s)) (rev [lo..<Suc m])
        = map (\<lambda>j. ([Some (take j s)], drop j s)) (rev [lo..<Suc m])"
      by (intro map_cong) auto
    then show ?thesis
      unfolding n_def m_def by (simp add: Let_def comp_def del: upt_Suc)
  qed
  have unf: "rmatch (Seq (Grp (Rep a lo hi)) r) s = concat (map g (rev [lo..<Suc m]))"
    unfolding rmatch.simps(3) grp g_def by (simp add: comp_def del: upt_Suc rmatch.simps)
  have small: "g j = []" if "j < n" for j
    using drop_lt_takeWhile [of j "atom_ok a" s] that rej by (auto simp: n_def g_def)
  have main: "rmatch (Seq (Grp (Rep a lo hi)) r) s = (if C then g n else [])"
  proof (cases C)
    case True
    then have "rev [lo..<Suc m] = n # rev [lo..<n]" by (simp add: C_iff)
    moreover have "concat (map g (rev [lo..<n])) = []"
      by (rule concat_map_all_Nil) (simp add: small)
    ultimately have "concat (map g (rev [lo..<Suc m])) = g n"
      by simp
    with unf True show ?thesis by (simp only: if_True)
  next
    case False
    have "concat (map g (rev [lo..<Suc m])) = []"
    proof (rule concat_map_all_Nil)
      fix j assume "j \<in> set (rev [lo..<Suc m])"
      then have "lo \<le> j" "j \<le> m" by auto
      with False mn have "j < n" unfolding C_iff by linarith
      then show "g j = []" by (rule small)
    qed
    with unf False show ?thesis by (simp only: if_False)
  qed
  show ?thesis
    using main unfolding C_def g_def n_def by (simp only: drop_takeWhile_len take_takeWhile_len)
qed

lemma rmatch_Seq_Atom:
  "rmatch (Seq (Atom a) r) s = (case s of [] \<Rightarrow> [] | c # cs \<Rightarrow> if atom_ok a c then rmatch r cs else [])"
  by (cases s) (simp_all add: comp_def)

lemma takeWhile_len_ge_iff:
  "k \<le> length (takeWhile P s) \<longleftrightarrow> k \<le> length s \<and> list_all P (take k s)"
proof
  assume k: "k \<le> length (takeWhile P s)"
  then have "take k s = take k (takeWhile P s)"
    by (metis takeWhile_eq_take min.absorb1 take_take)
  moreover have "list_all P (take k (takeWhile P s))"
    by (metis append_take_drop_id list_all_append list_all_iff set_takeWhileD)
  ultimately show "k \<le> length s \<and> list_all P (take k s)"
    using k length_takeWhile_le [of P s] by simp
next
  assume a: "k \<le> length s \<and> list_all P (take k s)"
  then have "takeWhile P (take k s @ drop k s) = take k s @ takeWhile P (drop k s)"
    by (intro takeWhile_append2) (simp add: list_all_iff)
  then show "k \<le> length (takeWhile P s)" using a by simp
qed

lemma rmatch_Grp_exact:
  "rmatch (Grp (Rep a k (Some k))) s =
     (if k \<le> length s \<and> list_all (atom_ok a) (take k s)
      then [([Some (take k s)], drop k s)] else [])"
  unfolding rmatch.simps(6) rmatch_Rep_exact takeWhile_len_ge_iff by simp

lemma rmatch_Seq_Grp_exact:
  "rmatch (Seq (Grp (Rep a k (Some k))) r) s =
     (if k \<le> length s \<and> list_all (atom_ok a) (take k s)
      then map (\<lambda>(c, t). (Some (take k s) # c, t)) (rmatch r (drop k s)) else [])"
  unfolding rmatch.simps(3) rmatch_Grp_exact by (auto simp: comp_def)

declare rmatch.simps [simp del]

lemma atom_ok_eta [simp]: "atom_ok Space = is_space" "atom_ok Digit = is_digit"
  by (rule ext, simp)+

lemmas kdefs = k_o_def k_hu_def k_si_def k_bun_def k_jeon_def k_nyeon_def k_wol_def k_il_def
  k_pul_def k_ha_def k_peu_def

lemma kfacts [simp]:
  "\<not> is_space k_nyeon" "\<not> is_space k_wol" "\<not> is_space k_il" "\<not> is_space k_si" "\<not> is_space k_bun"
  "\<not> is_digit k_nyeon" "\<not> is_digit k_wol" "\<not> is_digit k_il" "\<not> is_digit k_si" "\<not> is_digit k_bun"
  "\<not> is_digit 58" "\<not> is_digit k_o"
  by (simp_all add: kdefs is_space_def is_digit_def)

lemma digit_not_space: "is_digit c \<Longrightarrow> \<not> is_space c"
  by (auto simp: is_digit_def is_space_def)

lemma space_not_digit: "is_space c \<Longrightarrow> \<not> is_digit c"
  by (auto simp: is_digit_def is_space_def)

subsection \<open>Blocks of a pattern\<close>

lemma rmatch_Atom_Chr:
  "rmatch (Atom (Chr c)) s = (case lit_at c s of None \<Rightarrow> [] | Some r \<Rightarrow> [([], r)])"
  by (simp add: rmatch.simps(1) lit_at_def split: list.splits)

lemma rmatch_Seq_Chr:
  "rmatch (Seq (Atom (Chr c)) r) s = (case lit_at c s of None \<Rightarrow> [] | Some t \<Rightarrow> rmatch r t)"
  by (simp add: rmatch_Seq_Atom lit_at_def split: list.splits)

lemma rmatch_spaces_Chr:
  assumes "\<not> is_space c"
  shows "rmatch (Seq (Rep Space 0 None) (Atom (Chr c))) s =
           (case lit_at c (skip_spaces s) of None \<Rightarrow> [] | Some r \<Rightarrow> [([], r)])"
proof -
  have "rmatch (Atom (Chr c)) (x # t) = []" if "atom_ok Space x" for x t
    using that assms by (auto simp: rmatch.simps(1))
  from rmatch_Seq_Rep [of Space "Atom (Chr c)" 0 None s, OF this]
  show ?thesis by (simp add: skip_spaces_def rmatch_Atom_Chr)
qed

lemma rmatch_spaces_Seq_Chr:
  assumes "\<not> is_space c"
  shows "rmatch (Seq (Rep Space 0 None) (Seq (Atom (Chr c)) r)) s =
           (case lit_at c (skip_spaces s) of None \<Rightarrow> [] | Some t \<Rightarrow> rmatch r t)"
proof -
  have "rmatch (Seq (Atom (Chr c)) r) (x # t) = []" if "atom_ok Space x" for x t
    using that assms by (auto simp: rmatch_Seq_Atom)
  from rmatch_Seq_Rep [of Space "Seq (Atom (Chr c)) r" 0 None s, OF this]
  show ?thesis by (simp add: skip_spaces_def rmatch_Seq_Chr)
qed

lemma skip_spaces_digit: "is_digit x \<Longrightarrow> skip_spaces (x # t) = x # t"
  by (simp add: skip_spaces_def digit_not_space)

lemma rmatch_digits_then:
  assumes rej: "\<And>c t. is_digit c \<Longrightarrow> rmatch r (c # t) = []"
  shows "rmatch (Seq (Grp (Rep Digit lo hi)) r) s =
           (case digit_run lo hi s of None \<Rightarrow> []
            | Some (ds, t) \<Rightarrow> map (\<lambda>(c, u). (Some ds # c, u)) (rmatch r t))"
proof -
  have "rmatch r (c # t) = []" if "atom_ok Digit c" for c t
    using that rej by simp
  from rmatch_Seq_Grp_Rep [of Digit r lo hi s, OF this, unfolded atom_ok_eta]
  show ?thesis by (simp add: digit_run_def)
qed

lemma rmatch_spaces_digits_then:
  assumes rej: "\<And>c t. is_digit c \<Longrightarrow> rmatch r (c # t) = []" and lo: "0 < lo"
  shows "rmatch (Seq (Rep Space 0 None) (Seq (Grp (Rep Digit lo hi)) r)) s =
           (case digit_run lo hi (skip_spaces s) of None \<Rightarrow> []
            | Some (ds, t) \<Rightarrow> map (\<lambda>(c, u). (Some ds # c, u)) (rmatch r t))"
proof -
  have "rmatch (Seq (Grp (Rep Digit lo hi)) r) (x # t) = []" if "atom_ok Space x" for x t
    using that lo by (simp add: rmatch_digits_then [OF rej] digit_run_def space_not_digit)
  from rmatch_Seq_Rep [of Space "Seq (Grp (Rep Digit lo hi)) r" 0 None s, OF this, unfolded atom_ok_eta]
  show ?thesis by (simp add: skip_spaces_def rmatch_digits_then [OF rej])
qed

lemma rej_spaces_Seq_Chr:
  assumes "\<not> is_space c" "\<not> is_digit c" "is_digit x"
  shows "rmatch (Seq (Rep Space 0 None) (Seq (Atom (Chr c)) r)) (x # t) = []"
  using assms by (auto simp: rmatch_spaces_Seq_Chr skip_spaces_digit lit_at_def)

lemma rej_spaces_Chr:
  assumes "\<not> is_space c" "\<not> is_digit c" "is_digit x"
  shows "rmatch (Seq (Rep Space 0 None) (Atom (Chr c))) (x # t) = []"
  using assms by (auto simp: rmatch_spaces_Chr skip_spaces_digit lit_at_def)

lemma rej_Seq_Chr:
  assumes "\<not> is_digit c" "is_digit x"
  shows "rmatch (Seq (Atom (Chr c)) r) (x # t) = []"
  using assms by (auto simp: rmatch_Seq_Chr lit_at_def)

lemma rej_Chr:
  assumes "\<not> is_digit c" "is_digit x"
  shows "rmatch (Atom (Chr c)) (x # t) = []"
  using assms by (auto simp: rmatch.simps(1))

lemma rmatch_re_date:
  "map fst (rmatch re_date s) =
     (case date_at s of None \<Rightarrow> [] | Some (y, mo, d) \<Rightarrow> [[Some y, Some mo, Some d]])"
proof -
  let ?r5 = "Seq (Rep Space 0 None) (Atom (Chr k_il))"
  let ?r4 = "Seq (Rep Space 0 None) (Seq (Grp (Rep Digit 1 (Some 2))) ?r5)"
  let ?r3 = "Seq (Rep Space 0 None) (Seq (Atom (Chr k_wol)) ?r4)"
  let ?r2 = "Seq (Rep Space 0 None) (Seq (Grp (Rep Digit 1 (Some 2))) ?r3)"
  let ?r1 = "Seq (Rep Space 0 None) (Seq (Atom (Chr k_nyeon)) ?r2)"
  have re: "re_date = Seq (Grp (Rep Digit 4 (Some 4))) ?r1"
    by (simp add: re_date_def)
  have m5: "rmatch ?r5 t = (case lit_at k_il (skip_spaces t) of None \<Rightarrow> [] | Some r \<Rightarrow> [([], r)])" for t
    by (rule rmatch_spaces_Chr) simp
  have rej5: "rmatch ?r5 (c # t) = []" if "is_digit c" for c t
    by (rule rej_spaces_Chr) (use that in simp_all)
  have m4: "rmatch ?r4 t = (case digit_run 1 (Some 2) (skip_spaces t) of None \<Rightarrow> []
      | Some (ds, u) \<Rightarrow> map (\<lambda>(c, v). (Some ds # c, v)) (rmatch ?r5 u))" for t
    by (rule rmatch_spaces_digits_then [OF rej5]) simp_all
  have m3: "rmatch ?r3 t = (case lit_at k_wol (skip_spaces t) of None \<Rightarrow> [] | Some u \<Rightarrow> rmatch ?r4 u)" for t
    by (rule rmatch_spaces_Seq_Chr) simp
  have rej3: "rmatch ?r3 (c # t) = []" if "is_digit c" for c t
    by (rule rej_spaces_Seq_Chr) (use that in simp_all)
  have m2: "rmatch ?r2 t = (case digit_run 1 (Some 2) (skip_spaces t) of None \<Rightarrow> []
      | Some (ds, u) \<Rightarrow> map (\<lambda>(c, v). (Some ds # c, v)) (rmatch ?r3 u))" for t
    by (rule rmatch_spaces_digits_then [OF rej3]) simp_all
  have m1: "rmatch ?r1 t = (case lit_at k_nyeon (skip_spaces t) of None \<Rightarrow> [] | Some u \<Rightarrow> rmatch ?r2 u)" for t
    by (rule rmatch_spaces_Seq_Chr) simp
  have m0: "rmatch re_date s = (if 4 \<le> length s \<and> list_all is_digit (take 4 s)
      then map (\<lambda>(c, t). (Some (take 4 s) # c, t)) (rmatch ?r1 (drop 4 s)) else [])"
    unfolding re by (rule rmatch_Seq_Grp_exact [of Digit 4, unfolded atom_ok_eta])
  show ?thesis
    unfolding m0 m1 m2 m3 m4 m5 date_at_def digits_exact_def
    by (simp split: option.splits prod.splits)
qed

lemma rmatch_re_hhmm:
  "map fst (rmatch re_hhmm s) =
     (case hhmm_at s of None \<Rightarrow> [] | Some (h, mi) \<Rightarrow> [[Some h, Some mi]])"
proof -
  let ?r1 = "Seq (Atom (Chr 58)) (Grp (Rep Digit 2 (Some 2)))"
  have re: "re_hhmm = Seq (Grp (Rep Digit 1 (Some 2))) ?r1"
    by (simp add: re_hhmm_def)
  have m2: "rmatch (Grp (Rep Digit 2 (Some 2))) t =
      (if 2 \<le> length t \<and> list_all is_digit (take 2 t) then [([Some (take 2 t)], drop 2 t)] else [])" for t
    by (rule rmatch_Grp_exact [of Digit 2, unfolded atom_ok_eta])
  have m1: "rmatch ?r1 t = (case lit_at 58 t of None \<Rightarrow> [] | Some u \<Rightarrow> rmatch (Grp (Rep Digit 2 (Some 2))) u)" for t
    by (rule rmatch_Seq_Chr)
  have rej1: "rmatch ?r1 (c # t) = []" if "is_digit c" for c t
    by (rule rej_Seq_Chr) (use that in simp_all)
  have m0: "rmatch re_hhmm s = (case digit_run 1 (Some 2) s of None \<Rightarrow> []
      | Some (ds, u) \<Rightarrow> map (\<lambda>(c, v). (Some ds # c, v)) (rmatch ?r1 u))"
    unfolding re by (rule rmatch_digits_then [OF rej1])
  show ?thesis
    unfolding m0 m1 m2 hhmm_at_def digits_exact_def
    by (simp split: option.splits prod.splits)
qed

lemma rmatch_Seq_single:
  "rmatch r1 s = [(c, t)] \<Longrightarrow> rmatch (Seq r1 r2) s = map (\<lambda>(c2, u). (c @ c2, u)) (rmatch r2 t)"
  by (simp add: rmatch.simps(3))

lemma rmatch_Seq_none:
  "rmatch r1 s = [] \<Longrightarrow> rmatch (Seq r1 r2) s = []"
  by (simp add: rmatch.simps(3))

lemma rmatch_marker:
  "rmatch (Grp (Alt (Seq (Atom (Chr k_o)) (Atom (Chr k_jeon)))
                    (Seq (Atom (Chr k_o)) (Atom (Chr k_hu))))) s =
     (case marker_at s of None \<Rightarrow> []
      | Some (pm, r) \<Rightarrow> [([Some (if pm then [k_o, k_hu] else [k_o, k_jeon])], r)])"
proof -
  have ne: "k_jeon \<noteq> k_hu" by (simp add: kdefs)
  show ?thesis
    unfolding rmatch.simps(6) rmatch.simps(4) rmatch_Seq_Chr rmatch_Atom_Chr marker_at_def
    using ne by (auto simp: lit_at_def split: option.splits list.splits if_splits)
qed

lemma rmatch_re_ampm:
  "map fst (take 1 (rmatch re_ampm s)) =
     (case ampm_at s of None \<Rightarrow> []
      | Some (pm, h, mo) \<Rightarrow> [[Some (if pm then [k_o, k_hu] else [k_o, k_jeon]), Some h, mo]])"
proof -
  let ?mk = "Grp (Alt (Seq (Atom (Chr k_o)) (Atom (Chr k_jeon))) (Seq (Atom (Chr k_o)) (Atom (Chr k_hu))))"
  let ?x = "Seq (Grp (Rep Digit (Suc 0) (Some 2))) (Atom (Chr k_bun))"
  let ?r2 = "Seq (Atom (Chr k_si)) (Opt ?x)"
  let ?r1 = "Seq (Grp (Rep Digit (Suc 0) (Some 2))) ?r2"
  have re: "re_ampm = Seq ?mk ?r1"
    by (simp add: re_ampm_def)
  have rejx: "rmatch (Atom (Chr k_bun)) (c # t) = []" if "is_digit c" for c t
    by (rule rej_Chr) (use that in simp_all)
  have mx: "rmatch ?x t = (case digit_run (Suc 0) (Some 2) t of None \<Rightarrow> []
      | Some (ds, u) \<Rightarrow> map (\<lambda>(c, v). (Some ds # c, v)) (rmatch (Atom (Chr k_bun)) u))" for t
    by (rule rmatch_digits_then [OF rejx])
  have mo: "take (Suc 0) (rmatch (Opt ?x) t) = [([minutes_at t], snd (hd (rmatch (Opt ?x) t)))]" for t
    unfolding rmatch.simps(5) mx rmatch_Atom_Chr minutes_at_def
    by (simp split: option.splits prod.splits)
  have m2: "rmatch ?r2 t = (case lit_at k_si t of None \<Rightarrow> [] | Some u \<Rightarrow> rmatch (Opt ?x) u)" for t
    by (rule rmatch_Seq_Chr)
  have rej2: "rmatch ?r2 (c # t) = []" if "is_digit c" for c t
    by (rule rej_Seq_Chr) (use that in simp_all)
  have m1: "rmatch ?r1 t = (case digit_run (Suc 0) (Some 2) t of None \<Rightarrow> []
      | Some (ds, u) \<Rightarrow> map (\<lambda>(c, v). (Some ds # c, v)) (rmatch ?r2 u))" for t
    by (rule rmatch_digits_then [OF rej2])
  have m0: "rmatch re_ampm s = (case marker_at s of None \<Rightarrow> []
      | Some (pm, t) \<Rightarrow> map (\<lambda>(c2, u). ([Some (if pm then [k_o, k_hu] else [k_o, k_jeon])] @ c2, u)) (rmatch ?r1 t))"
  proof (cases "marker_at s")
    case None
    then have "rmatch ?mk s = []" by (simp add: rmatch_marker)
    then have "rmatch (Seq ?mk ?r1) s = []" by (rule rmatch_Seq_none)
    with None show ?thesis unfolding re by simp
  next
    case (Some a)
    obtain pm t where a: "a = (pm, t)" by (cases a)
    have "rmatch ?mk s = [([Some (if pm then [k_o, k_hu] else [k_o, k_jeon])], t)]"
      using Some a by (simp add: rmatch_marker)
    then have "rmatch (Seq ?mk ?r1) s
        = map (\<lambda>(c2, u). ([Some (if pm then [k_o, k_hu] else [k_o, k_jeon])] @ c2, u)) (rmatch ?r1 t)"
      by (rule rmatch_Seq_single)
    with Some a show ?thesis unfolding re by simp
  qed
  show ?thesis
    unfolding m0 m1 m2 ampm_at_def
    by (auto simp: take_map mo split: option.splits prod.splits)
qed

lemma rmatch_re_hour:
  "map fst (rmatch re_hour s) = (case hour_at s of None \<Rightarrow> [] | Some h \<Rightarrow> [[Some h]])"
proof -
  have re: "re_hour = Seq (Grp (Rep Digit 1 (Some 2))) (Atom (Chr k_si))"
    by (simp add: re_hour_def)
  have rej: "rmatch (Atom (Chr k_si)) (c # t) = []" if "is_digit c" for c t
    by (rule rej_Chr) (use that in simp_all)
  have m0: "rmatch re_hour s = (case digit_run 1 (Some 2) s of None \<Rightarrow> []
      | Some (ds, u) \<Rightarrow> map (\<lambda>(c, v). (Some ds # c, v)) (rmatch (Atom (Chr k_si)) u))"
    unfolding re by (rule rmatch_digits_then [OF rej])
  show ?thesis
    unfolding m0 rmatch_Atom_Chr hour_at_def
    by (simp split: option.splits prod.splits)
qed

lemma atom_ok_ChrI_k: "atom_ok (ChrI 107) c \<longleftrightarrow> c = 107 \<or> c = 75"
  by (auto simp: canon_def)

lemma rmatch_re_km:
  "map fst (rmatch re_km s) = (case km_at s of None \<Rightarrow> [] | Some ds \<Rightarrow> [[Some ds]])"
proof -
  let ?r1 = "Seq (Rep Space 0 None) (Atom (ChrI 107))"
  have re: "re_km = Seq (Grp (Rep Digit 1 None)) ?r1"
    by (simp add: re_km_def)
  have a: "rmatch (Atom (ChrI 107)) t = (case t of [] \<Rightarrow> [] | c # r \<Rightarrow> if c = 107 \<or> c = 75 then [([], r)] else [])" for t
    unfolding rmatch.simps(1) atom_ok_ChrI_k ..
  have "rmatch (Atom (ChrI 107)) (x # t) = []" if "atom_ok Space x" for x t
    using that unfolding a by (auto simp: is_space_def)
  from rmatch_Seq_Rep [of Space "Atom (ChrI 107)" 0 None, OF this, unfolded atom_ok_eta]
  have m1: "rmatch ?r1 t = rmatch (Atom (ChrI 107)) (skip_spaces t)" for t
    by (simp add: skip_spaces_def)
  have rej1: "rmatch ?r1 (c # t) = []" if "is_digit c" for c t
    using that unfolding m1 a by (auto simp: skip_spaces_digit is_digit_def)
  have m0: "rmatch re_km s = (case digit_run 1 None s of None \<Rightarrow> []
      | Some (ds, u) \<Rightarrow> map (\<lambda>(c, v). (Some ds # c, v)) (rmatch ?r1 u))"
    unfolding re by (rule rmatch_digits_then [OF rej1])
  show ?thesis
    unfolding m0 m1 a km_at_def
    by (simp split: option.splits prod.splits list.splits)
qed

subsection \<open>Leftmost search and global replacement\<close>

lemma rsearch_first_at:
  assumes "\<And>t. map fst (take 1 (rmatch r t)) = (case f t of None \<Rightarrow> [] | Some c \<Rightarrow> [g c])"
  shows "map_option snd (rsearch r s) = map_option g (first_at f s)"
proof (induction s)
  case Nil
  show ?case using assms [of "[]"]
    by (cases "rmatch r []"; cases "f []") (auto split: prod.splits)
next
  case (Cons x xs)
  show ?case using assms [of "x # xs"] Cons
    by (cases "rmatch r (x # xs)"; cases "f (x # xs)") (auto split: prod.splits)
qed

lemma take1_of_full:
  "map fst xs = (case v of None \<Rightarrow> [] | Some c \<Rightarrow> [g c]) \<Longrightarrow>
   map fst (take 1 xs) = (case v of None \<Rightarrow> [] | Some c \<Rightarrow> [g c])"
  by (cases xs; cases v) auto

lemma first_at_None_iff:
  "first_at f s = None \<longleftrightarrow> (\<forall>j\<le>length s. f (drop j s) = None)"
proof (induction s)
  case Nil
  show ?case by simp
next
  case (Cons x xs)
  have "(\<forall>j\<le>length (x # xs). f (drop j (x # xs)) = None)
      \<longleftrightarrow> f (x # xs) = None \<and> (\<forall>j\<le>length xs. f (drop j xs) = None)"
  proof (intro iffI conjI allI impI)
    fix j assume a: "f (x # xs) = None \<and> (\<forall>j\<le>length xs. f (drop j xs) = None)" and j: "j \<le> length (x # xs)"
    show "f (drop j (x # xs)) = None"
      using a j by (cases j) auto
  next
    assume a: "\<forall>j\<le>length (x # xs). f (drop j (x # xs)) = None"
    from a [rule_format, of 0] show "f (x # xs) = None" by simp
    fix j assume "j \<le> length xs"
    with a [rule_format, of "Suc j"] show "f (drop j xs) = None" by simp
  qed
  with Cons show ?case by (auto split: option.splits)
qed

lemma first_at_leftmost:
  "f t = Some r \<Longrightarrow> (\<forall>j<length pre. f (drop j (pre @ t)) = None) \<Longrightarrow> first_at f (pre @ t) = Some r"
proof (induction pre)
  case Nil
  then show ?case by (cases t) auto
next
  case (Cons x pre)
  from Cons.prems(2) [rule_format, of 0] have h: "f (x # pre @ t) = None" by simp
  have "\<forall>j<length pre. f (drop j (pre @ t)) = None"
  proof (intro allI impI)
    fix j assume "j < length pre"
    with Cons.prems(2) [rule_format, of "Suc j"] show "f (drop j (pre @ t)) = None" by simp
  qed
  with Cons.IH [OF Cons.prems(1)] h show ?case by simp
qed

lemma replace_all_spaces_Nil_aux:
  "r = re_spaces \<Longrightarrow> rep = [] \<Longrightarrow> replace_all r rep s = filter (\<lambda>c. \<not> is_space c) s"
proof (induction r rep s rule: replace_all.induct)
  case (1 r rep)
  then show ?case by (simp add: re_spaces_def rmatch.simps(2))
next
  case (2 r rep x xs)
  show ?case
  proof (cases "is_space x")
    case False
    then have "rmatch r (x # xs) = []"
      using 2(4) by (simp add: re_spaces_def rmatch.simps(2))
    with 2 False show ?thesis by simp
  next
    case True
    define n where "n = length (takeWhile is_space (x # xs))"
    have n1: "1 \<le> n" using True by (simp add: n_def)
    have "rmatch r (x # xs) = map (\<lambda>j. ([], drop j (x # xs))) (rev [1..<Suc n])"
      using 2(4) by (simp add: re_spaces_def rmatch.simps(2) n_def Let_def del: upt_Suc)
    also have "rev [1..<Suc n] = n # rev [1..<n]" using n1 by simp
    finally have hd: "rmatch r (x # xs) = ([], dropWhile is_space (x # xs)) # map (\<lambda>j. ([], drop j (x # xs))) (rev [1..<n])"
      by (simp add: n_def drop_takeWhile_len del: dropWhile.simps takeWhile.simps)
    have lt: "length (dropWhile is_space (x # xs)) < length (x # xs)"
      using True by (simp add: le_imp_less_Suc length_dropWhile_le)
    have "replace_all r rep (x # xs) = replace_all r rep (dropWhile is_space (x # xs))"
      using hd lt 2(5) by (simp del: dropWhile.simps)
    also have "\<dots> = filter (\<lambda>c. \<not> is_space c) (dropWhile is_space (x # xs))"
      using 2(2) [OF hd refl lt 2(4) 2(5)] .
    also have "\<dots> = filter (\<lambda>c. \<not> is_space c) (x # xs)"
      by (metis (mono_tags, lifting) filter_append filter_False self_append_conv2 set_takeWhileD takeWhile_dropWhile_id)
    finally show ?thesis .
  qed
qed

lemma replace_all_spaces_Nil:
  "replace_all re_spaces [] s = filter (\<lambda>c. \<not> is_space c) s"
  by (rule replace_all_spaces_Nil_aux) simp_all

subsection \<open>The date pattern as a decomposition of the text\<close>

lemma digits_exact_Some_iff:
  "digits_exact k s = Some (y, r) \<longleftrightarrow> s = y @ r \<and> length y = k \<and> list_all is_digit y"
  by (auto simp: digits_exact_def)

lemma skip_spaces_append:
  "list_all is_space w \<Longrightarrow> \<not> is_space c \<Longrightarrow> skip_spaces (w @ c # r) = c # r"
  by (simp add: skip_spaces_def list_all_iff dropWhile_append3)

lemma skip_spaces_decomp:
  "\<exists>w. list_all is_space w \<and> s = w @ skip_spaces s"
  by (rule exI [of _ "takeWhile is_space s"])
     (auto simp: skip_spaces_def list_all_iff dest: set_takeWhileD)

lemma lit_skip_iff:
  assumes "\<not> is_space c"
  shows "lit_at c (skip_spaces s) = Some r \<longleftrightarrow> (\<exists>w. list_all is_space w \<and> s = w @ c # r)"
proof
  assume "lit_at c (skip_spaces s) = Some r"
  then have "skip_spaces s = c # r"
    by (auto simp: lit_at_def split: list.splits if_splits)
  with skip_spaces_decomp [of s] show "\<exists>w. list_all is_space w \<and> s = w @ c # r"
    by auto
next
  assume "\<exists>w. list_all is_space w \<and> s = w @ c # r"
  then show "lit_at c (skip_spaces s) = Some r"
    using assms by (auto simp: skip_spaces_append lit_at_def)
qed

lemma digit_run_decomp:
  assumes "digit_run lo hi s = Some (ds, r)"
  shows "s = ds @ r \<and> list_all is_digit ds \<and> lo \<le> length ds
     \<and> (case hi of None \<Rightarrow> True | Some h \<Rightarrow> length ds \<le> h)"
  using assms by (auto simp: digit_run_def list_all_iff split: if_splits dest: set_takeWhileD)

lemma digit_run_append:
  assumes "list_all is_digit ds" "lo \<le> length ds"
    "case hi of None \<Rightarrow> True | Some h \<Rightarrow> length ds \<le> h" "r = [] \<or> \<not> is_digit (hd r)"
  shows "digit_run lo hi (ds @ r) = Some (ds, r)"
proof -
  have tk: "takeWhile is_digit (ds @ r) = ds" and dk: "dropWhile is_digit (ds @ r) = r"
    using assms(1,4) by (cases r; simp add: list_all_iff takeWhile_append2 dropWhile_append2)+
  show ?thesis unfolding digit_run_def tk dk using assms(2,3) by simp
qed

lemma hd_spaces_lit:
  "list_all is_space w \<Longrightarrow> \<not> is_digit c \<Longrightarrow> \<not> is_digit (hd (w @ c # r))"
  by (cases w) (auto simp: space_not_digit)

lemma run_skip_intro:
  assumes "list_all is_space w" "list_all is_digit ds" "lo \<le> length ds" "0 < lo"
    "case hi of None \<Rightarrow> True | Some h \<Rightarrow> length ds \<le> h" "r = [] \<or> \<not> is_digit (hd r)"
  shows "digit_run lo hi (skip_spaces (w @ ds @ r)) = Some (ds, r)"
proof -
  obtain x xs where ds: "ds = x # xs" using assms(3,4) by (cases ds) auto
  then have "\<not> is_space x" using assms(2) by (simp add: digit_not_space)
  then have "skip_spaces (w @ ds @ r) = ds @ r"
    using skip_spaces_append [OF assms(1), of x "xs @ r"] ds by simp
  then show ?thesis using digit_run_append [OF assms(2,3,5,6)] by simp
qed

lemma run_skip_decomp:
  assumes "digit_run lo hi (skip_spaces s) = Some (ds, r)"
  shows "\<exists>w. list_all is_space w \<and> s = w @ ds @ r \<and> list_all is_digit ds \<and> lo \<le> length ds
     \<and> (case hi of None \<Rightarrow> True | Some h \<Rightarrow> length ds \<le> h)"
  using digit_run_decomp [OF assms] skip_spaces_decomp [of s] by auto

lemma date_at_imp_text:
  assumes "date_at t = Some (y, mo, d)"
  shows "date_text y mo d t"
proof -
  from assms obtain s1 s2 s3 s4 s5 rest where
    a: "digits_exact 4 t = Some (y, s1)" and
    b: "lit_at k_nyeon (skip_spaces s1) = Some s2" and
    c: "digit_run 1 (Some 2) (skip_spaces s2) = Some (mo, s3)" and
    d: "lit_at k_wol (skip_spaces s3) = Some s4" and
    e: "digit_run 1 (Some 2) (skip_spaces s4) = Some (d, s5)" and
    f: "lit_at k_il (skip_spaces s5) = Some rest"
    unfolding date_at_def by (auto split: option.splits prod.splits)
  from a have a': "t = y @ s1" "length y = 4" "list_all is_digit y"
    by (simp_all add: digits_exact_Some_iff)
  from b obtain w1 where w1: "list_all is_space w1" "s1 = w1 @ k_nyeon # s2"
    by (auto simp: lit_skip_iff)
  from run_skip_decomp [OF c] obtain w2 where w2: "list_all is_space w2" "s2 = w2 @ mo @ s3"
    "list_all is_digit mo" "1 \<le> length mo" "length mo \<le> 2" by auto
  from d obtain w3 where w3: "list_all is_space w3" "s3 = w3 @ k_wol # s4"
    by (auto simp: lit_skip_iff)
  from run_skip_decomp [OF e] obtain w4 where w4: "list_all is_space w4" "s4 = w4 @ d @ s5"
    "list_all is_digit d" "1 \<le> length d" "length d \<le> 2" by auto
  from f obtain w5 where w5: "list_all is_space w5" "s5 = w5 @ k_il # rest"
    by (auto simp: lit_skip_iff)
  have "t = y @ w1 @ [k_nyeon] @ w2 @ mo @ w3 @ [k_wol] @ w4 @ d @ w5 @ [k_il] @ rest"
    using a'(1) w1(2) w2(2) w3(2) w4(2) w5(2) by simp
  moreover have "length mo = 1 \<or> length mo = 2" "length d = 1 \<or> length d = 2"
    using w2(4,5) w4(4,5) by linarith+
  ultimately show ?thesis
    unfolding date_text_def using a'(2,3) w1(1) w2(1,3) w3(1) w4(1,3) w5(1) by blast
qed

lemma date_text_imp_at:
  assumes "date_text y mo d t"
  shows "date_at t = Some (y, mo, d)"
proof -
  from assms obtain w1 w2 w3 w4 w5 rest where
    y: "length y = 4" "list_all is_digit y" and
    mo: "length mo = 1 \<or> length mo = 2" "list_all is_digit mo" and
    d: "length d = 1 \<or> length d = 2" "list_all is_digit d" and
    w: "list_all is_space w1" "list_all is_space w2" "list_all is_space w3"
       "list_all is_space w4" "list_all is_space w5" and
    t: "t = y @ w1 @ [k_nyeon] @ w2 @ mo @ w3 @ [k_wol] @ w4 @ d @ w5 @ [k_il] @ rest"
    unfolding date_text_def by blast
  define s5 where "s5 = w5 @ k_il # rest"
  define s4 where "s4 = w4 @ d @ s5"
  define s3 where "s3 = w3 @ k_wol # s4"
  define s2 where "s2 = w2 @ mo @ s3"
  define s1 where "s1 = w1 @ k_nyeon # s2"
  have t': "t = y @ s1" by (simp add: t s1_def s2_def s3_def s4_def s5_def)
  have a: "digits_exact 4 t = Some (y, s1)"
    using y t' by (simp add: digits_exact_Some_iff)
  have b: "lit_at k_nyeon (skip_spaces s1) = Some s2"
    using w(1) by (auto simp: lit_skip_iff s1_def)
  have c: "digit_run 1 (Some 2) (skip_spaces s2) = Some (mo, s3)"
    unfolding s2_def
    by (rule run_skip_intro) (use mo w(2,3) in \<open>auto simp: s3_def hd_spaces_lit\<close>)
  have d': "lit_at k_wol (skip_spaces s3) = Some s4"
    using w(3) by (auto simp: lit_skip_iff s3_def)
  have e: "digit_run 1 (Some 2) (skip_spaces s4) = Some (d, s5)"
    unfolding s4_def
    by (rule run_skip_intro) (use d w(4,5) in \<open>auto simp: s5_def hd_spaces_lit\<close>)
  have f: "lit_at k_il (skip_spaces s5) = Some rest"
    using w(5) by (auto simp: lit_skip_iff s5_def)
  show ?thesis
    by (simp only: date_at_def a b c d' e f option.case prod.case)
qed

lemma date_at_iff: "date_at t = Some (y, mo, d) \<longleftrightarrow> date_text y mo d t"
  using date_at_imp_text date_text_imp_at by blast

lemma date_at_None_iff: "date_at t = None \<longleftrightarrow> (\<forall>y mo d. \<not> date_text y mo d t)"
proof -
  have "date_at t = None \<longleftrightarrow> (\<forall>y mo d. date_at t \<noteq> Some (y, mo, d))"
    by (cases "date_at t") auto
  then show ?thesis by (simp add: date_at_iff)
qed

subsection \<open>The source functions on the patterns of the specification\<close>

lemma parseKoreanDate_first_at:
  "parseKoreanDate dayjs s =
     map_option (\<lambda>(y, mo, d). dayjs (y @ asc ''-'' @ mo @ asc ''-'' @ d)) (first_at date_at s)"
proof -
  have "map fst (take 1 (rmatch re_date t)) =
      (case date_at t of None \<Rightarrow> [] | Some c \<Rightarrow> [(\<lambda>(y, mo, d). [Some y, Some mo, Some d]) c])" for t
    by (rule take1_of_full) (simp add: rmatch_re_date split: option.splits prod.splits)
  from rsearch_first_at [where r = re_date and f = date_at and s = s, OF this]
  have "map_option snd (rsearch re_date s)
      = map_option (\<lambda>(y, mo, d). [Some y, Some mo, Some d]) (first_at date_at s)" .
  then show ?thesis
    unfolding parseKoreanDate_def
    by (cases "rsearch re_date s"; cases "first_at date_at s") (auto split: prod.splits)
qed

lemma rsearch_hhmm:
  "map_option snd (rsearch re_hhmm s) = map_option (\<lambda>(h, mi). [Some h, Some mi]) (first_at hhmm_at s)"
proof -
  have "map fst (take 1 (rmatch re_hhmm t)) =
      (case hhmm_at t of None \<Rightarrow> [] | Some c \<Rightarrow> [(\<lambda>(h, mi). [Some h, Some mi]) c])" for t
    by (rule take1_of_full) (simp add: rmatch_re_hhmm split: option.splits prod.splits)
  from rsearch_first_at [where r = re_hhmm and f = hhmm_at and s = s, OF this]
  show ?thesis .
qed

lemma rsearch_ampm:
  "map_option snd (rsearch re_ampm s) =
     map_option (\<lambda>(pm, h, mo). [Some (if pm then [k_o, k_hu] else [k_o, k_jeon]), Some h, mo])
       (first_at ampm_at s)"
proof -
  have "map fst (take 1 (rmatch re_ampm t)) =
      (case ampm_at t of None \<Rightarrow> []
       | Some c \<Rightarrow> [(\<lambda>(pm, h, mo). [Some (if pm then [k_o, k_hu] else [k_o, k_jeon]), Some h, mo]) c])" for t
    using rmatch_re_ampm [of t] by (cases "ampm_at t") (auto split: prod.splits)
  from rsearch_first_at [where r = re_ampm and f = ampm_at and s = s, OF this]
  show ?thesis .
qed

lemma rsearch_hour:
  "map_option snd (rsearch re_hour s) = map_option (\<lambda>h. [Some h]) (first_at hour_at s)"
proof -
  have "map fst (take 1 (rmatch re_hour t)) =
      (case hour_at t of None \<Rightarrow> [] | Some c \<Rightarrow> [(\<lambda>h. [Some h]) c])" for t
    by (rule take1_of_full) (simp add: rmatch_re_hour split: option.splits prod.splits)
  from rsearch_first_at [where r = re_hour and f = hour_at and s = s, OF this]
  show ?thesis .
qed

lemma rsearch_km:
  "map_option snd (rsearch re_km s) = map_option (\<lambda>ds. [Some ds]) (first_at km_at s)"
proof -
  have "map fst (take 1 (rmatch re_km t)) =
      (case km_at t of None \<Rightarrow> [] | Some c \<Rightarrow> [(\<lambda>ds. [Some ds]) c])" for t
    by (rule take1_of_full) (simp add: rmatch_re_km split: option.splits prod.splits)
  from rsearch_first_at [where r = re_km and f = km_at and s = s, OF this]
  show ?thesis .
qed

lemma parseInt10_Nil [simp]: "parseInt10 [] = 0"
  by (simp add: parseInt10_def)

lemma clock_hour_source:
  "(let hour = (if pm \<and> h < 12 then h + 12 else h) in if \<not> pm \<and> hour = 12 then 0 else hour)
     = clock_hour pm h"
  by (auto simp: clock_hour_def Let_def)

lemma parseTime_refines: "parseTime s = parseTimeOfDay_spec s"
proof -
  define t where "t = filter (\<lambda>c. \<not> is_space c) s"
  have ne: "[k_o, k_jeon] \<noteq> [k_o, k_hu]" by (simp add: kdefs)
  show ?thesis
  proof (cases "first_at hhmm_at t")
    case (Some a)
    obtain h mi where a: "a = (h, mi)" by (cases a)
    from rsearch_hhmm [of t] Some a obtain m0 where "rsearch re_hhmm t = Some (m0, [Some h, Some mi])"
      by (cases "rsearch re_hhmm t") auto
    then show ?thesis
      using Some a by (simp add: parseTime_def parseTimeOfDay_spec_def replace_all_spaces_Nil t_def [symmetric])
  next
    case None
    with rsearch_hhmm [of t] have r1: "rsearch re_hhmm t = None" by simp
    show ?thesis
    proof (cases "first_at ampm_at t")
      case (Some a)
      obtain pm h mo where a: "a = (pm, h, mo)" by (cases a)
      from rsearch_ampm [of t] Some a obtain m0 where
        r2: "rsearch re_ampm t = Some (m0, [Some (if pm then [k_o, k_hu] else [k_o, k_jeon]), Some h, mo])"
        by (cases "rsearch re_ampm t") auto
      show ?thesis
        using None Some a r1 r2 ne
        by (cases pm; cases mo)
           (auto simp: parseTime_def parseTimeOfDay_spec_def replace_all_spaces_Nil t_def [symmetric]
              two_digits_def clock_hour_def Let_def)
    next
      case None2: None
      with rsearch_ampm [of t] have r2: "rsearch re_ampm t = None" by simp
      show ?thesis
      proof (cases "first_at hour_at t")
        case (Some h)
        from rsearch_hour [of t] Some obtain m0 where "rsearch re_hour t = Some (m0, [Some h])"
          by (cases "rsearch re_hour t") auto
        then show ?thesis
          using None None2 Some r1 r2
          by (simp add: parseTime_def parseTimeOfDay_spec_def replace_all_spaces_Nil t_def [symmetric]
              two_digits_def)
      next
        case None3: None
        with rsearch_hour [of t] have "rsearch re_hour t = None" by simp
        then show ?thesis
          using None None2 None3 r1 r2
          by (simp add: parseTime_def parseTimeOfDay_spec_def replace_all_spaces_Nil t_def [symmetric])
      qed
    qed
  qed
qed

lemma course_rule_refines: "course_rule s = category_rule km_at s"
proof (cases "first_at km_at s")
  case None
  with rsearch_km [of s] have "rsearch re_km s = None" by simp
  with None show ?thesis by (simp add: course_rule_def category_rule_def)
next
  case (Some ds)
  from rsearch_km [of s] Some obtain m0 where "rsearch re_km s = Some (m0, [Some ds])"
    by (cases "rsearch re_km s") auto
  with Some show ?thesis by (simp add: course_rule_def category_rule_def)
qed

text \<open>The groups that reach \<open>parseInt\<close> are non-empty runs of digits.\<close>

lemma hhmm_at_digits:
  "hhmm_at s = Some (h, mi) \<Longrightarrow> h \<noteq> [] \<and> list_all is_digit h \<and> length mi = 2 \<and> list_all is_digit mi"
  by (auto simp: hhmm_at_def digits_exact_def split: option.splits prod.splits if_splits
      dest!: digit_run_decomp)

lemma ampm_at_digits:
  "ampm_at s = Some (pm, h, mo) \<Longrightarrow>
     h \<noteq> [] \<and> list_all is_digit h \<and> (\<forall>m. mo = Some m \<longrightarrow> m \<noteq> [] \<and> list_all is_digit m)"
  by (auto simp: ampm_at_def minutes_at_def split: option.splits prod.splits
      dest!: digit_run_decomp)

lemma hour_at_digits:
  "hour_at s = Some h \<Longrightarrow> h \<noteq> [] \<and> list_all is_digit h"
  by (auto simp: hour_at_def split: option.splits prod.splits dest!: digit_run_decomp)

lemma first_at_Some:
  "first_at f s = Some r \<Longrightarrow> \<exists>j. f (drop j s) = Some r"
proof (induction s)
  case Nil
  then show ?case by auto
next
  case (Cons x xs)
  show ?case
  proof (cases "f (x # xs)")
    case None
    with Cons obtain j where "f (drop j xs) = Some r" by auto
    then have "f (drop (Suc j) (x # xs)) = Some r" by simp
    then show ?thesis by blast
  next
    case (Some a)
    with Cons.prems have "f (drop 0 (x # xs)) = Some r" by simp
    then show ?thesis by blast
  qed
qed

section \<open>Claims about the text normalizers\<close>

lemmas eval_defs = asc_def kdefs is_digit_def is_space_def digit_run_def digits_exact_def
  lit_at_def skip_spaces_def date_at_def hhmm_at_def marker_at_def minutes_at_def ampm_at_def
  hour_at_def km_at_def km_strict_at_def

lemmas time_eval = parseTimeOfDay_spec_def eval_defs two_digits_def clock_hour_def padStart_def
  parseInt10_def String_of.simps

lemmas course_eval = normalizeCategories_spec_def category_rule_def trim_def str_includes_def
  sublist_code eval_defs

lemma normalizeCourse_refines: "normalizeCourse t = normalizeCategories_spec km_at t"
  by (simp add: normalizeCourse_def normalizeCategories_spec_def course_rule_refines [abs_def])

lemma dayjs_lib_fields:
  assumes "length y = 4" "list_all is_digit y"
    "length mo = 1 \<or> length mo = 2" "list_all is_digit mo"
    "length d = 1 \<or> length d = 2" "list_all is_digit d"
  shows "dayjs_lib (y @ asc ''-'' @ mo @ asc ''-'' @ d)
     = new_Date (int (parseInt10 y)) (int (parseInt10 mo) - 1) (parseInt10 d)"
proof -
  have nd: "\<not> is_digit 45" by (simp add: is_digit_def)
  have a: "digits_exact 4 (y @ 45 # mo @ 45 # d) = Some (y, 45 # mo @ 45 # d)"
    using assms(1,2) by (simp add: digits_exact_Some_iff)
  have b: "digit_run 1 (Some 2) (mo @ 45 # d) = Some (mo, 45 # d)"
    by (rule digit_run_append) (use assms(3,4) nd in auto)
  have c: "digit_run 1 (Some 2) (d @ []) = Some (d, [])"
    by (rule digit_run_append) (use assms(5,6) in auto)
  show ?thesis
    using a b c by (simp add: dayjs_lib_def asc_def lit_at_def)
qed

lemma new_Date_valid:
  assumes "valid_date y m d"
  shows "new_Date (int y) (int m - 1) d = OnDay (int y) m d"
proof -
  from assms have y: "100 \<le> y" and m: "1 \<le> m" "m \<le> 12" and d: "1 \<le> d" "d \<le> days_in_month (int y) (m - 1)"
    by (simp_all add: valid_date_def)
  have "(int m - 1) div 12 = 0" "nat ((int m - 1) mod 12) = m - 1"
    using m by auto
  then have "new_Date (int y) (int m - 1) d = roll_days (int y) (m - 1) d"
    using y by (simp add: new_Date_def)
  also have "\<dots> = OnDay (int y) m d"
    using d m by (subst roll_days.simps) simp
  finally show ?thesis .
qed

lemmas date_eval = dayjs_lib_def parseInt10_def new_Date_def roll_days.simps days_in_month_def
  leap_year_def

lemma parseKoreanDate_lib:
  "parseKoreanDate dayjs_lib s =
     map_option (\<lambda>(y, mo, d). new_Date (int (parseInt10 y)) (int (parseInt10 mo) - 1) (parseInt10 d))
       (first_at date_at s)"
proof (cases "first_at date_at s")
  case None
  then show ?thesis by (simp add: parseKoreanDate_first_at)
next
  case (Some a)
  obtain y mo d where a: "a = (y, mo, d)" by (cases a)
  from first_at_Some [OF Some] a obtain j where "date_at (drop j s) = Some (y, mo, d)" by blast
  then have "date_text y mo d (drop j s)" by (simp add: date_at_iff)
  then have "dayjs_lib (y @ asc ''-'' @ mo @ asc ''-'' @ d)
      = new_Date (int (parseInt10 y)) (int (parseInt10 mo) - 1) (parseInt10 d)"
    unfolding date_text_def by (intro dayjs_lib_fields) blast+
  then show ?thesis using Some a by (simp add: parseKoreanDate_first_at)
qed

text \<open>
  Claim C7, as stated, fails in three ways. A text that contains the well-formed date
  2026-2-2 after an earlier one gives the earlier date, 2025-12-1. The well-formed text
  for 2026-2-30 gives the second of March 2026, and the well-formed text for 0099-12-31
  gives the last day of 1999: the date library does not reject a day beyond the end of
  the month and reads a year below 100 as a year of the twentieth century.
\<close>

theorem parseKoreanDate_counterexample:
  "parseKoreanDate dayjs_lib
     (asc ''2025'' @ [k_nyeon] @ asc ''12'' @ [k_wol] @ asc ''1'' @ [k_il] @ asc '' ~ 2026''
        @ [k_nyeon] @ asc ''2'' @ [k_wol] @ asc ''2'' @ [k_il])
     = Some (OnDay 2025 12 1)
   \<and> date_text (asc ''2026'') (asc ''2'') (asc ''2'')
       (drop 13 (asc ''2025'' @ [k_nyeon] @ asc ''12'' @ [k_wol] @ asc ''1'' @ [k_il] @ asc '' ~ 2026''
          @ [k_nyeon] @ asc ''2'' @ [k_wol] @ asc ''2'' @ [k_il]))
   \<and> parseKoreanDate dayjs_lib (asc ''2026'' @ [k_nyeon] @ asc ''2'' @ [k_wol] @ asc ''30'' @ [k_il])
     = Some (OnDay 2026 3 2)
   \<and> parseKoreanDate dayjs_lib (asc ''0099'' @ [k_nyeon] @ asc ''12'' @ [k_wol] @ asc ''31'' @ [k_il])
     = Some (OnDay 1999 12 31)"
proof (intro conjI)
  show "date_text (asc ''2026'') (asc ''2'') (asc ''2'')
       (drop 13 (asc ''2025'' @ [k_nyeon] @ asc ''12'' @ [k_wol] @ asc ''1'' @ [k_il] @ asc '' ~ 2026''
          @ [k_nyeon] @ asc ''2'' @ [k_wol] @ asc ''2'' @ [k_il]))"
    by (rule date_at_imp_text) (simp add: eval_defs)
qed (simp_all add: parseKoreanDate_lib eval_defs date_eval)

text \<open>
  Claim C7, amended. When a text \<open>pre @ t\<close> holds a well-formed date at \<open>t\<close> (a four-digit
  year, a month and a day of one or two digits, each followed by its sign, with any
  amount of whitespace around each unit) and no such date starts earlier in the text,
  \<open>parseKoreanDate\<close> returns the date the library builds from that year, month and day;
  when the year is at least 100 and month and day name a day of the calendar, that is
  exactly the date Y-M-D. It returns \<open>null\<close> exactly when the text holds no such date at
  any position.
\<close>

theorem parseKoreanDate_spec:
  "(date_text y mo d t \<and> (\<forall>j<length pre. \<forall>y' mo' d'. \<not> date_text y' mo' d' (drop j (pre @ t)))
      \<longrightarrow> parseKoreanDate dayjs_lib (pre @ t)
            = Some (new_Date (int (parseInt10 y)) (int (parseInt10 mo) - 1) (parseInt10 d))
          \<and> (valid_date (parseInt10 y) (parseInt10 mo) (parseInt10 d) \<longrightarrow>
               parseKoreanDate dayjs_lib (pre @ t)
                 = Some (OnDay (int (parseInt10 y)) (parseInt10 mo) (parseInt10 d))))
   \<and> ((\<forall>j y' mo' d'. \<not> date_text y' mo' d' (drop j s)) \<longleftrightarrow> parseKoreanDate dayjs_lib s = None)"
proof (intro conjI impI)
  assume a: "date_text y mo d t \<and> (\<forall>j<length pre. \<forall>y' mo' d'. \<not> date_text y' mo' d' (drop j (pre @ t)))"
  then have "date_at t = Some (y, mo, d)" by (simp add: date_at_iff)
  moreover have "\<forall>j<length pre. date_at (drop j (pre @ t)) = None"
    using a by (simp add: date_at_None_iff)
  ultimately have "first_at date_at (pre @ t) = Some (y, mo, d)"
    by (rule first_at_leftmost)
  then show r: "parseKoreanDate dayjs_lib (pre @ t)
      = Some (new_Date (int (parseInt10 y)) (int (parseInt10 mo) - 1) (parseInt10 d))"
    by (simp add: parseKoreanDate_lib)
  assume "valid_date (parseInt10 y) (parseInt10 mo) (parseInt10 d)"
  then show "parseKoreanDate dayjs_lib (pre @ t)
      = Some (OnDay (int (parseInt10 y)) (parseInt10 mo) (parseInt10 d))"
    using r by (simp add: new_Date_valid)
next
  have "parseKoreanDate dayjs_lib s = None \<longleftrightarrow> (\<forall>j\<le>length s. date_at (drop j s) = None)"
    by (simp add: parseKoreanDate_first_at first_at_None_iff)
  also have "\<dots> \<longleftrightarrow> (\<forall>j. date_at (drop j s) = None)"
  proof
    assume h: "\<forall>j\<le>length s. date_at (drop j s) = None"
    show "\<forall>j. date_at (drop j s) = None"
    proof
      fix j
      show "date_at (drop j s) = None"
      proof (cases "j \<le> length s")
        case True with h show ?thesis by simp
      next
        case False
        then have "drop j s = drop (length s) s" by simp
        with h show ?thesis by (metis order_refl)
      qed
    qed
  qed simp
  finally show "(\<forall>j y' mo' d'. \<not> date_text y' mo' d' (drop j s)) \<longleftrightarrow> parseKoreanDate dayjs_lib s = None"
    by (simp add: date_at_None_iff)
qed

theorem parseKoreanDate_spec_witness:
  "parseKoreanDate dayjs_lib (asc ''A 2026'' @ [k_nyeon] @ asc '' 1'' @ [k_wol] @ asc ''11 '' @ [k_il])
     = Some (OnDay 2026 1 11)
   \<and> parseKoreanDate dayjs_lib (asc ''2026-1-11'') = None"
proof -
  let ?t = "asc ''2026'' @ [k_nyeon] @ asc '' 1'' @ [k_wol] @ asc ''11 '' @ [k_il]"
  have a: "date_text (asc ''2026'') (asc ''1'') (asc ''11'') ?t"
    by (rule date_at_imp_text) (simp add: eval_defs)
  have b: "\<forall>j<length (asc ''A '').
      \<forall>y' mo' d'. \<not> date_text y' mo' d' (drop j (asc ''A '' @ ?t))"
  proof (intro allI impI)
    fix j y' mo' d'
    assume "j < length (asc ''A '')"
    then have "j = 0 \<or> j = 1" by (auto simp: asc_def)
    then have "date_at (drop j (asc ''A '' @ ?t)) = None"
      by (auto simp: eval_defs)
    then show "\<not> date_text y' mo' d' (drop j (asc ''A '' @ ?t))"
      by (simp add: date_at_None_iff)
  qed
  have c: "\<forall>j y' mo' d'. \<not> date_text y' mo' d' (drop j (asc ''2026-1-11''))"
  proof (intro allI)
    fix j y' mo' d'
    have "date_at (drop j (asc ''2026-1-11'')) = None"
      by (simp add: date_at_def digits_exact_def lit_at_def skip_spaces_def asc_def kdefs
          is_digit_def is_space_def drop_Cons split: nat.splits)
    then show "\<not> date_text y' mo' d' (drop j (asc ''2026-1-11''))"
      by (simp add: date_at_None_iff)
  qed
  have n: "parseInt10 (asc ''2026'') = 2026" "parseInt10 (asc ''1'') = 1" "parseInt10 (asc ''11'') = 11"
    by (simp_all add: parseInt10_def asc_def is_digit_def)
  have v: "valid_date (parseInt10 (asc ''2026'')) (parseInt10 (asc ''1'')) (parseInt10 (asc ''11''))"
    unfolding n by (simp add: valid_date_def days_in_month_def)
  from parseKoreanDate_spec [of "asc ''2026''" "asc ''1''" "asc ''11''" ?t "asc ''A ''" "asc ''2026-1-11''"]
    a b c v
  have "parseKoreanDate dayjs_lib (asc ''A '' @ ?t)
      = Some (OnDay (int (parseInt10 (asc ''2026''))) (parseInt10 (asc ''1'')) (parseInt10 (asc ''11'')))"
    and "parseKoreanDate dayjs_lib (asc ''2026-1-11'') = None"
    by blast+
  then show ?thesis unfolding n by (simp add: asc_def)
qed

lemma hour_cases: "1 \<le> h \<and> h \<le> 11 \<Longrightarrow>
  h = 1 \<or> h = 2 \<or> h = 3 \<or> h = 4 \<or> h = 5 \<or> h = 6 \<or> h = 7 \<or> h = 8 \<or> h = 9 \<or> h = 10 \<or> h = (11::nat)"
  by arith

lemma afternoon_hours:
  "1 \<le> h \<and> h \<le> 11 \<Longrightarrow>
   parseTimeOfDay_spec ([k_o, k_hu] @ String_of h @ [k_si]) = Some (String_of (h + 12) @ asc '':00'')"
  by (drule hour_cases, elim disjE) (simp_all add: time_eval)

lemma morning_hours:
  "1 \<le> h \<and> h \<le> 11 \<Longrightarrow>
   parseTimeOfDay_spec ([k_o, k_jeon] @ String_of h @ [k_si]) = Some (two_digits h @ asc '':00'')"
  by (drule hour_cases, elim disjE) (simp_all add: time_eval)

lemma noon: 
   "parseTimeOfDay_spec ([k_o, k_hu] @ asc ''12'' @ [k_si]) = Some (asc ''12:00'')"
  by (simp_all add: time_eval)

text \<open>
  Claim C4. \<open>parseTime\<close> is the specification's \<open>parseTimeOfDay\<close>: on the text without
  its whitespace it tries \<open>H:MM\<close>/\<open>HH:MM\<close> (hour padded to two digits), then the
  morning/afternoon marker with an hour and optional minutes (afternoon 1 to 11 plus 12,
  morning 12 to 0, the others unchanged), then a bare hour with minutes 00; the first
  pattern found wins and the result is \<open>null\<close> when none is found. In particular an
  afternoon hour \<open>h\<close> from 1 to 11 gives \<open>h + 12\<close>, a morning hour from 1 to 11 and the
  afternoon hour 12 are kept, the morning hour 12 gives 00, and the four examples of the
  specification evaluate as stated.
\<close>

theorem parseTime_three_patterns:
  "parseTime s = parseTimeOfDay_spec s
   \<and> (1 \<le> h \<and> h \<le> 11 \<longrightarrow>
        parseTime ([k_o, k_hu] @ String_of h @ [k_si]) = Some (String_of (h + 12) @ asc '':00''))
   \<and> (1 \<le> h \<and> h \<le> 11 \<longrightarrow>
        parseTime ([k_o, k_jeon] @ String_of h @ [k_si]) = Some (two_digits h @ asc '':00''))
   \<and> parseTime ([k_o, k_hu] @ asc ''12'' @ [k_si]) = Some (asc ''12:00'')
   \<and> parseTime ([k_o, k_hu] @ asc ''3'' @ [k_si] @ asc ''30'' @ [k_bun]) = Some (asc ''15:30'')
   \<and> parseTime ([k_o, k_jeon] @ asc ''12'' @ [k_si]) = Some (asc ''00:00'')
   \<and> parseTime (asc ''9'' @ [k_si]) = Some (asc ''09:00'')
   \<and> parseTime (asc ''09:05 '' @ [0xCD9C, 0xBC1C]) = Some (asc ''09:05'')"
  unfolding parseTime_refines
  by (intro conjI impI refl afternoon_hours morning_hours noon) (simp_all add: time_eval)

theorem parseTime_three_patterns_witness:
  "parseTime (asc ''start: '' @ [k_o, k_hu] @ asc '' 3'' @ [k_si] @ asc '' 5'' @ [k_bun])
     = Some (asc ''15:05'')
   \<and> parseTime ([k_o, k_hu] @ asc ''3'' @ [k_si]) = Some (asc ''15:00'')
   \<and> parseTime ([k_o, k_jeon] @ asc ''3'' @ [k_si]) = Some (asc ''03:00'')"
proof -
  have h: "1 \<le> (3::nat) \<and> (3::nat) \<le> 11" by simp
  have s: "String_of 3 = asc ''3''" "String_of (3 + 12) = asc ''15''" "two_digits 3 = asc ''03''"
    by (simp_all add: String_of.simps two_digits_def padStart_def asc_def)
  from parseTime_three_patterns
    [of "asc ''start: '' @ [k_o, k_hu] @ asc '' 3'' @ [k_si] @ asc '' 5'' @ [k_bun]" 3] h
  have "parseTime (asc ''start: '' @ [k_o, k_hu] @ asc '' 3'' @ [k_si] @ asc '' 5'' @ [k_bun])
      = parseTimeOfDay_spec (asc ''start: '' @ [k_o, k_hu] @ asc '' 3'' @ [k_si] @ asc '' 5'' @ [k_bun])"
    and "parseTime ([k_o, k_hu] @ String_of 3 @ [k_si]) = Some (String_of (3 + 12) @ asc '':00'')"
    and "parseTime ([k_o, k_jeon] @ String_of 3 @ [k_si]) = Some (two_digits 3 @ asc '':00'')"
    by blast+
  then show ?thesis
    unfolding s by (simp add: time_eval)
qed

text \<open>
  Claim C6, as stated, with the distance pattern read as digits with a \<open>k\<close> right after
  them, fails on the segment \<open>10 k\<close>: the source turns it into \<open>10k\<close>, the claim leaves it
  unchanged.
\<close>

theorem normalizeCourse_counterexample:
  "normalizeCourse (asc ''10 k'') = [asc ''10k'']
   \<and> normalizeCategories_spec km_strict_at (asc ''10 k'') = [asc ''10 k'']"
  unfolding normalizeCourse_refines by (simp add: course_eval)

text \<open>
  Claim C6, amended. \<open>normalizeCourse\<close> splits on commas, trims each segment, drops the
  empty ones and maps each remaining segment, in order and keeping duplicates, by the
  first rule that applies: contains the full-course syllable, \<open>full\<close>; contains the
  half-course syllables, \<open>half\<close>; contains digits followed, after optional whitespace, by
  \<open>k\<close> or \<open>K\<close>, the first such digits and \<open>k\<close>; otherwise the segment unchanged. The
  example of the specification evaluates as stated.
\<close>

theorem normalizeCourse_rules:
  "normalizeCourse t = normalizeCategories_spec km_at t
   \<and> normalizeCourse ([k_pul, 0xCF54, 0xC2A4] @ asc '', '' @ [k_ha, k_peu] @ asc '', 10k, 5K'')
       = [asc ''full'', asc ''half'', asc ''10k'', asc ''5k'']"
  unfolding normalizeCourse_refines by (intro conjI refl) (simp add: course_eval)

theorem normalizeCourse_rules_witness:
  "normalizeCourse (asc ''a, ,10 km,x5 K'') = [asc ''a'', asc ''10k'', asc ''5k'']"
  using normalizeCourse_rules [of "asc ''a, ,10 km,x5 K''"]
  by (simp add: course_eval)

section \<open>Claims about the detail extractor\<close>

text \<open>A text that contains the delimiter splits into at least two parts.\<close>

lemma split_on_nonempty: "split_on c s \<noteq> []"
  by (induction s) (auto split: list.splits)

lemma split_on_two:
  "c \<in> set s \<Longrightarrow> \<exists>a b rest. split_on c s = a # b # rest"
proof (induction s)
  case Nil
  then show ?case by simp
next
  case (Cons x xs)
  show ?case
  proof (cases "x = c")
    case True
    then show ?thesis
      using split_on_nonempty [of c xs] by (cases "split_on c xs") auto
  next
    case False
    with Cons.prems have "c \<in> set xs" by simp
    from Cons.IH [OF this] False show ?thesis by auto
  qed
qed

lemma includes_single: "str_includes s [c] \<longleftrightarrow> c \<in> set s"
  by (induction s) (auto simp: str_includes_def sublist_Cons_right)

lemma not_includes_Nil: "t \<noteq> [] \<Longrightarrow> \<not> str_includes [] t"
  by (simp add: str_includes_def)

lemma labels_nonempty:
  "L_name \<noteq> []" "L_date \<noteq> []" "L_course \<noteq> []" "L_region \<noteq> []" "L_venue \<noteq> []"
  "L_entry \<noteq> []" "L_homepage \<noteq> []"
  by (simp_all add: L_name_def L_date_def L_course_def L_region_def L_venue_def L_entry_def
      L_homepage_def)

lemma row_step_label:
  "row_step st r =
     (case row_label r of
        None \<Rightarrow> st
      | Some LName \<Rightarrow> st\<lparr>raceName := row_value r\<rparr>
      | Some LDate \<Rightarrow> st\<lparr>dateRaw := row_value r\<rparr>
      | Some LCourse \<Rightarrow> st\<lparr>courseRaw := row_value r\<rparr>
      | Some LRegion \<Rightarrow> st\<lparr>region := row_value r\<rparr>
      | Some LVenue \<Rightarrow> st\<lparr>venue := row_value r\<rparr>
      | Some LEntry \<Rightarrow> st\<lparr>entryRaw := row_value r\<rparr>
      | Some LHomepage \<Rightarrow>
          (case row_link r of Some h \<Rightarrow> st\<lparr>homepage_found := Some h\<rparr> | None \<Rightarrow> st))"
proof (cases "length r < 2")
  case True
  then show ?thesis by (simp add: row_step_def row_label_def)
next
  case False
  then have ne: "r \<noteq> []" by auto
  then have r: "r \<noteq> []" "r ! 0 = hd r" "r ! (length r - 1) = last r"
    by (simp_all add: hd_conv_nth last_conv_nth)
  show ?thesis
  proof (cases "clean (cell_text (hd r)) = []")
    case True
    then show ?thesis
      using False r by (simp add: row_step_def row_label_def Let_def not_includes_Nil labels_nonempty)
  next
    case False2: False
    show ?thesis
      using False False2 r
      by (simp add: row_step_def row_label_def row_value_def row_link_def Let_def)
  qed
qed

lemma row_step_short: "length r < 2 \<Longrightarrow> row_step st r = st"
  by (simp add: row_step_def)

lemma scan_rows_snoc: "scan_rows (trs @ [r]) = row_step (scan_rows trs) r"
  by (simp add: scan_rows_def)

lemma last_value_snoc:
  "last_value k (trs @ [r]) = (if row_label r = Some k then row_value r else last_value k trs)"
  by (simp add: last_value_def Let_def)

lemma last_link_snoc:
  "last_link (trs @ [r]) =
     (if row_label r = Some LHomepage \<and> row_link r \<noteq> None then row_link r else last_link trs)"
  by (simp add: last_link_def Let_def)

lemma scan_rows_fields:
  "scan_rows trs =
     \<lparr>raceName = last_value LName trs, dateRaw = last_value LDate trs,
      courseRaw = last_value LCourse trs, region = last_value LRegion trs,
      venue = last_value LVenue trs, entryRaw = last_value LEntry trs,
      homepage_found = last_link trs\<rparr>"
proof (induction trs rule: rev_induct)
  case Nil
  show ?case by (simp add: scan_rows_def init_fields_def last_value_def last_link_def)
next
  case (snoc r trs)
  show ?case
    unfolding scan_rows_snoc snoc.IH row_step_label last_value_snoc last_link_snoc
    by (cases "row_label r"; (cases "the (row_label r)")?; cases "row_link r") auto
qed

lemma foldl_skip:
  "(\<And>st. f st r = st) \<Longrightarrow> foldl f st (pre @ r # post) = foldl f st (pre @ post)"
  by simp

lemma scan_rows_skip:
  "row_label r = None \<Longrightarrow> scan_rows (pre @ r # post) = scan_rows (pre @ post)"
  unfolding scan_rows_def by (rule foldl_skip) (simp add: row_step_label)

lemma scan_rows_skip_short:
  "length r < 2 \<Longrightarrow> scan_rows (pre @ r # post) = scan_rows (pre @ post)"
  unfolding scan_rows_def by (rule foldl_skip) (simp add: row_step_short)

lemma parseTime_nonempty: "parseTime s = Some t \<Longrightarrow> t \<noteq> []"
  unfolding parseTime_refines parseTimeOfDay_spec_def
  by (auto simp: Let_def asc_def split: option.splits prod.splits)

lemma parseKoreanDate_Nil: "parseKoreanDate dayjs [] = None"
  by (simp add: parseKoreanDate_first_at date_at_def digits_exact_def)

lemma race_datetime_make_race:
  "race_datetime (make_race dayjs fmt no st) =
     (case parseKoreanDate dayjs (dateRaw st) of
        None \<Rightarrow> None
      | Some d \<Rightarrow> Some (fmt d @ asc '' '' @
          (case parseTime (dateRaw st) of None \<Rightarrow> asc ''00:00'' | Some t \<Rightarrow> t)))"
  by (auto simp: make_race_def Let_def parseKoreanDate_Nil split: option.splits
      dest: parseTime_nonempty)

lemmas label_defs = L_name_def L_date_def L_course_def L_region_def L_venue_def L_entry_def
  L_homepage_def

lemmas clean_eval = clean_def trim_def re_spaces_def rmatch.simps(2) asc_def is_space_def
  str_includes_def sublist_code label_defs

lemmas row_eval = row_label_def row_value_def row_link_def cell_homepage_def td_def td_link_def
  clean_eval re_url_def rmatch.simps

text \<open>
  Claim C5. For a document with at least one row the extractor returns a record whose
  \<open>race_datetime\<close> comes from \<open>parseKoreanDate\<close> and \<open>parseTime\<close> run over the same text, the
  value of the last date/time row (empty when there is none): with a date and a time it
  is the formatted date, a space and the time; with a date and no time the time part is
  \<open>00:00\<close>; with no date it is \<open>null\<close>, whatever \<open>parseTime\<close> finds.
\<close>

theorem fetchRaceDetail_datetime:
  "trs \<noteq> [] \<longrightarrow>
     (\<exists>r. fetchRaceDetail dayjs fmt no trs = Inr r
        \<and> (\<forall>d t. parseKoreanDate dayjs (last_value LDate trs) = Some d
                 \<and> parseTime (last_value LDate trs) = Some t
              \<longrightarrow> race_datetime r = Some (fmt d @ asc '' '' @ t))
        \<and> (\<forall>d. parseKoreanDate dayjs (last_value LDate trs) = Some d
                 \<and> parseTime (last_value LDate trs) = None
              \<longrightarrow> race_datetime r = Some (fmt d @ asc '' 00:00''))
        \<and> (parseKoreanDate dayjs (last_value LDate trs) = None \<longrightarrow> race_datetime r = None))"
proof
  assume "trs \<noteq> []"
  then have "fetchRaceDetail dayjs fmt no trs = Inr (make_race dayjs fmt no (scan_rows trs))"
    by (simp add: fetchRaceDetail_def)
  moreover have "dateRaw (scan_rows trs) = last_value LDate trs"
    by (simp add: scan_rows_fields)
  ultimately show "\<exists>r. fetchRaceDetail dayjs fmt no trs = Inr r
        \<and> (\<forall>d t. parseKoreanDate dayjs (last_value LDate trs) = Some d
                 \<and> parseTime (last_value LDate trs) = Some t
              \<longrightarrow> race_datetime r = Some (fmt d @ asc '' '' @ t))
        \<and> (\<forall>d. parseKoreanDate dayjs (last_value LDate trs) = Some d
                 \<and> parseTime (last_value LDate trs) = None
              \<longrightarrow> race_datetime r = Some (fmt d @ asc '' 00:00''))
        \<and> (parseKoreanDate dayjs (last_value LDate trs) = None \<longrightarrow> race_datetime r = None)"
    by (simp add: race_datetime_make_race asc_def)
qed

theorem fetchRaceDetail_datetime_witness:
  "\<exists>r. fetchRaceDetail (\<lambda>x. x) (\<lambda>x. x) (asc ''7'') doc_one = Inr r
       \<and> race_datetime r = Some (asc ''2026-1-11 00:00'')"
proof -
  have v: "last_value LDate doc_one = asc ''2026'' @ [k_nyeon] @ asc '' 1'' @ [k_wol] @ asc ''11'' @ [k_il]"
    by (simp add: last_value_def doc_one_def row_eval kdefs)
  have a: "doc_one \<noteq> []" by (simp add: doc_one_def)
  have b: "parseKoreanDate (\<lambda>x. x) (last_value LDate doc_one) = Some (asc ''2026-1-11'')"
    unfolding v by (simp add: parseKoreanDate_first_at eval_defs)
  have c: "parseTime (last_value LDate doc_one) = None"
    unfolding v parseTime_refines by (simp add: time_eval)
  from fetchRaceDetail_datetime [of doc_one "\<lambda>x. x" "\<lambda>x. x" "asc ''7''"] a b c
  show ?thesis by (auto simp: asc_def)
qed

text \<open>
  Claim C8. The extractor fails, with the error for a page without rows, exactly when
  the document has no rows; otherwise it returns a record. A row with fewer than two
  cells is skipped: the result is the record built from the other rows.
\<close>

theorem fetchRaceDetail_rows:
  "(fetchRaceDetail dayjs fmt no trs = Inl NoRows \<longleftrightarrow> trs = [])
   \<and> (trs \<noteq> [] \<longrightarrow> fetchRaceDetail dayjs fmt no trs = Inr (make_race dayjs fmt no (scan_rows trs)))
   \<and> (length r < 2 \<longrightarrow>
        fetchRaceDetail dayjs fmt no (pre @ r # post)
          = Inr (make_race dayjs fmt no (scan_rows (pre @ post))))"
  by (simp add: fetchRaceDetail_def scan_rows_skip_short)

theorem fetchRaceDetail_rows_witness:
  "fetchRaceDetail (\<lambda>x. x) (\<lambda>x. x) (asc ''7'') [] = Inl NoRows
   \<and> fetchRaceDetail (\<lambda>x. x) (\<lambda>x. x) (asc ''7'') [[td L_name]]
       = Inr (make_race (\<lambda>x. x) (\<lambda>x. x) (asc ''7'') init_fields)
   \<and> fetchRaceDetail (\<lambda>x. x) (\<lambda>x. x) (asc ''7'') ([td L_name] # doc_one)
       = fetchRaceDetail (\<lambda>x. x) (\<lambda>x. x) (asc ''7'') doc_one"
proof -
  have a: "length [td L_name] < 2" by simp
  have b: "doc_one \<noteq> []" by (simp add: doc_one_def)
  from fetchRaceDetail_rows [of "\<lambda>x. x" "\<lambda>x. x" "asc ''7''" "[]" "[td L_name]" "[]" "[]"]
    fetchRaceDetail_rows [of "\<lambda>x. x" "\<lambda>x. x" "asc ''7''" doc_one "[td L_name]" "[]" doc_one] a b
  show ?thesis by (simp add: scan_rows_def)
qed

text \<open>
  Claim C9, as stated, fails on the document \<open>doc_cx\<close>. Its second row contains the
  date/time label in its first cell and is the last such row, with value \<open>B\<close>, but it also
  contains the name label, which is tested first: the raw date/time stays \<open>A\<close>. Its last
  row carries the homepage label and no link, and the homepage of the earlier row stays.
\<close>

theorem scan_rows_counterexample:
  "dateRaw (scan_rows doc_cx) = asc ''A''
   \<and> last_matching_value L_date doc_cx = asc ''B''
   \<and> homepage_found (scan_rows doc_cx) = Some (asc ''http://a'')
   \<and> last_matching_link L_homepage doc_cx = None"
  by (simp add: scan_rows_fields last_value_def last_link_def last_matching_value_def
      last_matching_link_def doc_cx_def row_eval)

text \<open>
  Claim C9, amended. Each of the six text variables holds the value of the last row
  dispatched to its label (the first recognized label, in the order of the source, that
  the row's collapsed first cell contains), or is empty when there is none; the homepage
  is that of the last row dispatched to the homepage label in which a link is found.
  The record is built from these values, and a row dispatched to no label has no effect.
\<close>

theorem scan_rows_last_wins:
  "scan_rows trs =
     \<lparr>raceName = last_value LName trs, dateRaw = last_value LDate trs,
      courseRaw = last_value LCourse trs, region = last_value LRegion trs,
      venue = last_value LVenue trs, entryRaw = last_value LEntry trs,
      homepage_found = last_link trs\<rparr>
   \<and> (trs \<noteq> [] \<longrightarrow> fetchRaceDetail dayjs fmt no trs = Inr (make_race dayjs fmt no
        \<lparr>raceName = last_value LName trs, dateRaw = last_value LDate trs,
         courseRaw = last_value LCourse trs, region = last_value LRegion trs,
         venue = last_value LVenue trs, entryRaw = last_value LEntry trs,
         homepage_found = last_link trs\<rparr>))
   \<and> (row_label r = None \<longrightarrow> scan_rows (pre @ r # post) = scan_rows (pre @ post))"
  using scan_rows_fields [of trs] by (simp add: fetchRaceDetail_def scan_rows_skip)

theorem scan_rows_last_wins_witness:
  "raceName (scan_rows ([td L_name, td (asc ''A'')] # [td (asc ''memo''), td (asc ''x'')] # doc_cx))
     = asc ''B''
   \<and> scan_rows ([td L_name, td (asc ''A'')] # [td (asc ''memo''), td (asc ''x'')] # doc_cx)
     = scan_rows ([td L_name, td (asc ''A'')] # doc_cx)
   \<and> fetchRaceDetail (\<lambda>x. x) (\<lambda>x. x) (asc ''7'') doc_cx
     = Inr (make_race (\<lambda>x. x) (\<lambda>x. x) (asc ''7'')
         \<lparr>raceName = asc ''B'', dateRaw = asc ''A'', courseRaw = [], region = [], venue = [],
          entryRaw = [], homepage_found = Some (asc ''http://a'')\<rparr>)"
proof -
  let ?r = "[td (asc ''memo''), td (asc ''x'')]"
  let ?pre = "[[td L_name, td (asc ''A'')]]"
  have a: "row_label ?r = None" by (simp add: row_eval)
  have b: "doc_cx \<noteq> []" by (simp add: doc_cx_def)
  have c: "last_value LName (?pre @ ?r # doc_cx) = asc ''B''"
    by (simp add: last_value_def doc_cx_def row_eval)
  have d: "\<lparr>raceName = last_value LName doc_cx, dateRaw = last_value LDate doc_cx,
      courseRaw = last_value LCourse doc_cx, region = last_value LRegion doc_cx,
      venue = last_value LVenue doc_cx, entryRaw = last_value LEntry doc_cx,
      homepage_found = last_link doc_cx\<rparr>
    = \<lparr>raceName = asc ''B'', dateRaw = asc ''A'', courseRaw = [], region = [], venue = [],
          entryRaw = [], homepage_found = Some (asc ''http://a'')\<rparr>"
    by (simp add: last_value_def last_link_def doc_cx_def row_eval)
  note w1 = scan_rows_last_wins [of "?pre @ ?r # doc_cx" "\<lambda>x. x" "\<lambda>x. x" "asc ''7''" ?r ?pre doc_cx]
  note w2 = scan_rows_last_wins [of doc_cx "\<lambda>x. x" "\<lambda>x. x" "asc ''7''" ?r ?pre doc_cx]
  from w1 have "raceName (scan_rows (?pre @ ?r # doc_cx)) = last_value LName (?pre @ ?r # doc_cx)"
    by (simp only: fields.select_convs)
  with c have e1: "raceName (scan_rows (?pre @ ?r # doc_cx)) = asc ''B''" by simp
  from w1 a have e2: "scan_rows (?pre @ ?r # doc_cx) = scan_rows (?pre @ doc_cx)" by blast
  from w2 b have "fetchRaceDetail (\<lambda>x. x) (\<lambda>x. x) (asc ''7'') doc_cx
     = Inr (make_race (\<lambda>x. x) (\<lambda>x. x) (asc ''7'')
        \<lparr>raceName = last_value LName doc_cx, dateRaw = last_value LDate doc_cx,
         courseRaw = last_value LCourse doc_cx, region = last_value LRegion doc_cx,
         venue = last_value LVenue doc_cx, entryRaw = last_value LEntry doc_cx,
         homepage_found = last_link doc_cx\<rparr>)" by blast
  then have e3: "fetchRaceDetail (\<lambda>x. x) (\<lambda>x. x) (asc ''7'') doc_cx
     = Inr (make_race (\<lambda>x. x) (\<lambda>x. x) (asc ''7'')
         \<lparr>raceName = asc ''B'', dateRaw = asc ''A'', courseRaw = [], region = [], venue = [],
          entryRaw = [], homepage_found = Some (asc ''http://a'')\<rparr>)"
    by (simp only: d)
  from e1 e2 e3 show ?thesis by simp
qed

section \<open>Claims about the sync engine\<close>

lemma truthy_Some [simp]: "truthy (Some s) \<longleftrightarrow> s \<noteq> []"
  by (simp add: truthy_def)

lemma truthy_None [simp]: "\<not> truthy None"
  by (simp add: truthy_def)

lemma query_config_absent:
  "\<not> truthy (DB_ID cfg) \<or> \<not> truthy (NOTION_TOKEN cfg) \<Longrightarrow>
   queryByRaceName cfg env name w = (Inr [], [], w)"
  by (auto simp: queryByRaceName_def)

lemma query_calls:
  assumes "truthy (DB_ID cfg)" "truthy (NOTION_TOKEN cfg)"
  shows "\<exists>res w1. queryByRaceName cfg env name w = (res, [Query (the (DB_ID cfg)) name], w1)"
  using assms
  by (auto simp: queryByRaceName_def split: prod.splits io.splits)

lemma upsert_after_query:
  assumes "truthy (DB_ID cfg)"
    and "queryByRaceName cfg env (race_name r) w = (res, cs, w1)"
  shows "(\<forall>p ps. res = Inr (p # ps) \<longrightarrow>
            calls_of (upsertRaceToNotion cfg env r w) = cs @ [Update (page_id p) (buildProperties r)])
       \<and> (res = Inr [] \<longrightarrow>
            calls_of (upsertRaceToNotion cfg env r w)
              = cs @ [Create (the (DB_ID cfg)) (buildProperties r)])
       \<and> (\<forall>e. res = Inl e \<longrightarrow> upsertRaceToNotion cfg env r w = (Inl e, cs, w1))"
  using assms
  by (auto simp: upsertRaceToNotion_def calls_of_def Let_def split: prod.splits io.splits)

lemmas notion_eval = upsertRaceToNotion_def queryByRaceName_def store_env_def const_env_def
  cfg_ok_def race_named_def calls_of_def Let_def

lemma query_not_ok:
  assumes "truthy (DB_ID cfg)" "truthy (NOTION_TOKEN cfg)"
    "fetch_query env (the (DB_ID cfg)) (the (NOTION_TOKEN cfg)) name w = (Resolves res, w1)"
    "\<not> ok res"
  shows "queryByRaceName cfg env name w = (Inr [], [Query (the (DB_ID cfg)) name], w1)"
  using assms by (simp add: queryByRaceName_def)

lemma query_rejects:
  assumes "truthy (DB_ID cfg)" "truthy (NOTION_TOKEN cfg)"
    "fetch_query env (the (DB_ID cfg)) (the (NOTION_TOKEN cfg)) name w = (Rejects, w1)"
  shows "queryByRaceName cfg env name w = (Inl TransportError, [Query (the (DB_ID cfg)) name], w1)"
  using assms by (simp add: queryByRaceName_def)

lemma upsert_write_rejects:
  assumes "truthy (DB_ID cfg)"
    and "queryByRaceName cfg env (race_name r) w = (Inr existing, cs, w1)"
  shows "(\<forall>p ps w2. existing = p # ps
            \<and> pages_update env (NOTION_TOKEN cfg) (page_id p) (buildProperties r) w1 = (Rejects, w2)
          \<longrightarrow> fst (upsertRaceToNotion cfg env r w) = Inl ApiError)
       \<and> (\<forall>w2. existing = []
            \<and> pages_create env (NOTION_TOKEN cfg) (the (DB_ID cfg)) (buildProperties r) w1 = (Rejects, w2)
          \<longrightarrow> fst (upsertRaceToNotion cfg env r w) = Inl ApiError)"
  using assms by (auto simp: upsertRaceToNotion_def Let_def)

lemma no_title_nonempty: "no_title \<noteq> []"
  by (simp add: no_title_def)

lemma store_query:
  "queryByRaceName cfg_ok store_env n w
     = (Inr (filter (\<lambda>p. Name_title (page_props p) = n) w), [Query (asc ''db'') n], w)"
  by (simp add: queryByRaceName_def store_env_def cfg_ok_def asc_def)

lemma upsert_twice_named:
  assumes "race_name r \<noteq> []"
  shows "\<exists>pid. fst (upsert_twice r w)
            = [Query (asc ''db'') (race_name r), Update pid (buildProperties r)]
       \<and> length (snd (upsert_twice r w))
            = length (snd (snd (upsertRaceToNotion cfg_ok store_env r w)))"
proof -
  let ?n = "race_name r"
  let ?ps = "buildProperties r"
  have t: "Name_title ?ps = ?n" using assms by (simp add: buildProperties_def Let_def)
  have db: "truthy (DB_ID cfg_ok)" "the (DB_ID cfg_ok) = asc ''db''" "NOTION_TOKEN cfg_ok = Some (asc ''secret'')"
    by (simp_all add: cfg_ok_def asc_def)
  obtain res1 cs1 w1 where u1: "upsertRaceToNotion cfg_ok store_env r w = (res1, cs1, w1)"
    by (cases "upsertRaceToNotion cfg_ok store_env r w") auto
  have ex: "filter (\<lambda>p. Name_title (page_props p) = ?n) w1 \<noteq> []"
  proof (cases "filter (\<lambda>p. Name_title (page_props p) = ?n) w")
    case Nil
    then have "w1 = w @ [\<lparr>page_id = String_of (length w), page_props = ?ps\<rparr>]"
      using u1 by (simp add: upsertRaceToNotion_def store_query db Let_def) (simp add: store_env_def)
    then show ?thesis using t by simp
  next
    case (Cons p ps)
    then have w1: "w1 = map (\<lambda>q. if page_id q = page_id p then q\<lparr>page_props := ?ps\<rparr> else q) w"
      using u1 by (simp add: upsertRaceToNotion_def store_query db Let_def) (simp add: store_env_def)
    have "p \<in> set w" using Cons by (metis filter_is_subset list.set_intros(1) subsetD)
    then have "p\<lparr>page_props := ?ps\<rparr> \<in> set w1" unfolding w1 by force
    moreover have "Name_title (page_props (p\<lparr>page_props := ?ps\<rparr>)) = ?n" using t by simp
    ultimately have "\<exists>x\<in>set w1. Name_title (page_props x) = ?n" by blast
    then show ?thesis by (simp add: filter_empty_conv)
  qed
  then obtain p ps where f1: "filter (\<lambda>p. Name_title (page_props p) = ?n) w1 = p # ps"
    by (cases "filter (\<lambda>p. Name_title (page_props p) = ?n) w1") auto
  have u2: "upsertRaceToNotion cfg_ok store_env r w1
      = (Inr (), [Query (asc ''db'') ?n, Update (page_id p) ?ps],
         map (\<lambda>q. if page_id q = page_id p then q\<lparr>page_props := ?ps\<rparr> else q) w1)"
    using f1 by (simp add: upsertRaceToNotion_def store_query db Let_def) (simp add: store_env_def)
  show ?thesis
    using u1 u2 by (auto simp: upsert_twice_def)
qed

text \<open>
  Claim C1, as stated for every record, fails when the collection identifier is not
  configured: the upsert returns at once and issues no request, so it does not first
  query the store.
\<close>

theorem upsert_calls_counterexample:
  "calls_of (upsertRaceToNotion \<lparr>NOTION_TOKEN = Some (asc ''secret''), DB_ID = None\<rparr>
      store_env (race_named (asc ''A'')) []) = []"
  by (simp add: notion_eval)

text \<open>
  Claim C1, amended. Without a collection identifier an upsert issues no request. When
  the collection identifier and the token are configured, an upsert first issues one
  query for the record's name. If the query returns one or more
  pages, the requests are that query and one update of the first page's identifier with
  the record's mapped properties; if it returns none, the query and one create with the
  mapped properties under the configured collection; if the query fails, the query alone.
\<close>

theorem upsert_calls:
  "(\<not> truthy (DB_ID cfg) \<longrightarrow> upsertRaceToNotion cfg env r w = (Inr (), [], w))
   \<and> (truthy (DB_ID cfg) \<and> truthy (NOTION_TOKEN cfg) \<longrightarrow>
     (\<exists>res w1.
        queryByRaceName cfg env (race_name r) w
          = (res, [Query (the (DB_ID cfg)) (race_name r)], w1)
        \<and> (\<forall>p ps. res = Inr (p # ps) \<longrightarrow>
              calls_of (upsertRaceToNotion cfg env r w)
                = [Query (the (DB_ID cfg)) (race_name r), Update (page_id p) (buildProperties r)])
        \<and> (res = Inr [] \<longrightarrow>
              calls_of (upsertRaceToNotion cfg env r w)
                = [Query (the (DB_ID cfg)) (race_name r),
                   Create (the (DB_ID cfg)) (buildProperties r)])
        \<and> (\<forall>e. res = Inl e \<longrightarrow>
              upsertRaceToNotion cfg env r w
                = (Inl e, [Query (the (DB_ID cfg)) (race_name r)], w1))))"
proof (intro conjI impI)
  assume "\<not> truthy (DB_ID cfg)"
  then show "upsertRaceToNotion cfg env r w = (Inr (), [], w)"
    by (simp add: upsertRaceToNotion_def)
next
  assume a: "truthy (DB_ID cfg) \<and> truthy (NOTION_TOKEN cfg)"
  then obtain res w1 where
    q: "queryByRaceName cfg env (race_name r) w = (res, [Query (the (DB_ID cfg)) (race_name r)], w1)"
    using query_calls [of cfg env "race_name r" w] by blast
  from upsert_after_query [OF _ q] a
  show "\<exists>res w1.
        queryByRaceName cfg env (race_name r) w
          = (res, [Query (the (DB_ID cfg)) (race_name r)], w1)
        \<and> (\<forall>p ps. res = Inr (p # ps) \<longrightarrow>
              calls_of (upsertRaceToNotion cfg env r w)
                = [Query (the (DB_ID cfg)) (race_name r), Update (page_id p) (buildProperties r)])
        \<and> (res = Inr [] \<longrightarrow>
              calls_of (upsertRaceToNotion cfg env r w)
                = [Query (the (DB_ID cfg)) (race_name r),
                   Create (the (DB_ID cfg)) (buildProperties r)])
        \<and> (\<forall>e. res = Inl e \<longrightarrow>
              upsertRaceToNotion cfg env r w
                = (Inl e, [Query (the (DB_ID cfg)) (race_name r)], w1))"
    using q by auto
qed

theorem upsert_calls_witness:
  "calls_of (upsertRaceToNotion cfg_ok store_env (race_named (asc ''A'')) [])
     = [Query (asc ''db'') (asc ''A''), Create (asc ''db'') (buildProperties (race_named (asc ''A'')))]
   \<and> calls_of (upsertRaceToNotion cfg_ok store_env (race_named (asc ''A''))
        [\<lparr>page_id = asc ''p1'', page_props = buildProperties (race_named (asc ''A''))\<rparr>,
         \<lparr>page_id = asc ''p2'', page_props = buildProperties (race_named (asc ''A''))\<rparr>])
     = [Query (asc ''db'') (asc ''A''), Update (asc ''p1'') (buildProperties (race_named (asc ''A'')))]
   \<and> upsertRaceToNotion \<lparr>NOTION_TOKEN = Some (asc ''secret''), DB_ID = Some []\<rparr> store_env
        (race_named (asc ''A'')) []
     = (Inr (), [], [])"
proof -
  let ?r = "race_named (asc ''A'')"
  let ?w = "[\<lparr>page_id = asc ''p1'', page_props = buildProperties ?r\<rparr>,
         \<lparr>page_id = asc ''p2'', page_props = buildProperties ?r\<rparr>]"
  let ?c0 = "\<lparr>NOTION_TOKEN = Some (asc ''secret''), DB_ID = Some []\<rparr>"
  have c: "truthy (DB_ID cfg_ok) \<and> truthy (NOTION_TOKEN cfg_ok)"
    by (simp add: cfg_ok_def asc_def)
  have c0: "\<not> truthy (DB_ID ?c0)" by simp
  have n: "race_name ?r = asc ''A''" "the (DB_ID cfg_ok) = asc ''db''"
    by (simp_all add: race_named_def cfg_ok_def)
  have q1: "queryByRaceName cfg_ok store_env (race_name ?r) []
      = (Inr [], [Query (the (DB_ID cfg_ok)) (race_name ?r)], [])"
    by (simp add: queryByRaceName_def store_env_def cfg_ok_def asc_def)
  have t: "Name_title (buildProperties ?r) = asc ''A''"
    by (simp add: buildProperties_def race_named_def asc_def)
  have q2: "queryByRaceName cfg_ok store_env (race_name ?r) ?w
      = (Inr ?w, [Query (the (DB_ID cfg_ok)) (race_name ?r)], ?w)"
    using t by (simp add: queryByRaceName_def store_env_def cfg_ok_def n) (simp add: asc_def)
  from upsert_calls [of cfg_ok store_env ?r "[]"] c q1
  have 1: "calls_of (upsertRaceToNotion cfg_ok store_env ?r [])
     = [Query (the (DB_ID cfg_ok)) (race_name ?r), Create (the (DB_ID cfg_ok)) (buildProperties ?r)]"
    by auto
  from upsert_calls [of cfg_ok store_env ?r ?w] c q2
  have 2: "calls_of (upsertRaceToNotion cfg_ok store_env ?r ?w)
     = [Query (the (DB_ID cfg_ok)) (race_name ?r), Update (asc ''p1'') (buildProperties ?r)]"
    by auto
  from upsert_calls [of ?c0 store_env ?r "[]"] c0
  have 3: "upsertRaceToNotion ?c0 store_env ?r [] = (Inr (), [], [])"
    by blast
  from 1 2 3 show ?thesis by (simp only: n)
qed

text \<open>
  Claim C2 fails for the empty name. Two successive upserts of a record with the empty
  name, starting from the empty store: the second upsert queries for the empty title,
  finds nothing because the first page was stored under the placeholder title, and
  creates a second page. For a non-empty name the second upsert updates the page, see
  \<open>upsert_twice_named\<close>.
\<close>

theorem upsert_twice_empty_name:
  "upsert_twice (race_named []) []
     = ([Query (asc ''db'') [], Create (asc ''db'') (buildProperties (race_named []))],
        [\<lparr>page_id = asc ''0'', page_props = buildProperties (race_named [])\<rparr>,
         \<lparr>page_id = asc ''1'', page_props = buildProperties (race_named [])\<rparr>])
   \<and> Name_title (buildProperties (race_named [])) = no_title"
  by (simp add: upsert_twice_def notion_eval asc_def buildProperties_def no_title_def
      String_of.simps truthy_def)

text \<open>
  Claim C3, as stated, fails when the store is unreachable: the query request rejects
  and \<open>queryByRaceName\<close> raises instead of returning the empty list.
\<close>

theorem query_failures_counterexample:
  "fst (queryByRaceName cfg_ok (const_env Rejects Rejects Rejects) (asc ''A'') ())
     = Inl TransportError"
  by (simp add: notion_eval asc_def)

text \<open>
  Claim C3, amended. \<open>queryByRaceName\<close> returns the empty list, without a request, when
  the collection identifier or the token is absent. With both configured, a response
  that is not \<open>ok\<close> gives the empty list and the upsert goes on to a create; a rejected
  request (the store is unreachable) is raised by the query and by the upsert, which
  issues nothing more. A rejected update or create is raised by the upsert.
\<close>

theorem query_failures:
  "(\<not> truthy (DB_ID cfg) \<or> \<not> truthy (NOTION_TOKEN cfg) \<longrightarrow>
      queryByRaceName cfg env name w = (Inr [], [], w))
   \<and> (truthy (DB_ID cfg) \<and> truthy (NOTION_TOKEN cfg) \<longrightarrow>
        (\<forall>res w1. fetch_query env (the (DB_ID cfg)) (the (NOTION_TOKEN cfg)) (race_name r) w
                    = (Resolves res, w1) \<and> \<not> ok res \<longrightarrow>
            queryByRaceName cfg env (race_name r) w
              = (Inr [], [Query (the (DB_ID cfg)) (race_name r)], w1)
            \<and> calls_of (upsertRaceToNotion cfg env r w)
              = [Query (the (DB_ID cfg)) (race_name r),
                 Create (the (DB_ID cfg)) (buildProperties r)])
      \<and> (\<forall>w1. fetch_query env (the (DB_ID cfg)) (the (NOTION_TOKEN cfg)) (race_name r) w
                    = (Rejects, w1) \<longrightarrow>
            queryByRaceName cfg env (race_name r) w
              = (Inl TransportError, [Query (the (DB_ID cfg)) (race_name r)], w1)
            \<and> upsertRaceToNotion cfg env r w
              = (Inl TransportError, [Query (the (DB_ID cfg)) (race_name r)], w1)))
   \<and> (truthy (DB_ID cfg) \<longrightarrow>
        (\<forall>existing cs w1. queryByRaceName cfg env (race_name r) w = (Inr existing, cs, w1) \<longrightarrow>
           (\<forall>p ps w2. existing = p # ps
               \<and> pages_update env (NOTION_TOKEN cfg) (page_id p) (buildProperties r) w1 = (Rejects, w2)
             \<longrightarrow> fst (upsertRaceToNotion cfg env r w) = Inl ApiError)
         \<and> (\<forall>w2. existing = []
               \<and> pages_create env (NOTION_TOKEN cfg) (the (DB_ID cfg)) (buildProperties r) w1 = (Rejects, w2)
             \<longrightarrow> fst (upsertRaceToNotion cfg env r w) = Inl ApiError)))"
proof (intro conjI impI allI)
  assume "\<not> truthy (DB_ID cfg) \<or> \<not> truthy (NOTION_TOKEN cfg)"
  then show "queryByRaceName cfg env name w = (Inr [], [], w)"
    by (rule query_config_absent)
next
  fix res w1
  assume c: "truthy (DB_ID cfg) \<and> truthy (NOTION_TOKEN cfg)"
    and f: "fetch_query env (the (DB_ID cfg)) (the (NOTION_TOKEN cfg)) (race_name r) w
              = (Resolves res, w1) \<and> \<not> ok res"
  then show q: "queryByRaceName cfg env (race_name r) w
      = (Inr [], [Query (the (DB_ID cfg)) (race_name r)], w1)"
    by (simp add: query_not_ok)
  from upsert_after_query [of cfg env r w, OF _ q] c
  show "calls_of (upsertRaceToNotion cfg env r w)
      = [Query (the (DB_ID cfg)) (race_name r), Create (the (DB_ID cfg)) (buildProperties r)]"
    by simp
next
  fix w1
  assume c: "truthy (DB_ID cfg) \<and> truthy (NOTION_TOKEN cfg)"
    and f: "fetch_query env (the (DB_ID cfg)) (the (NOTION_TOKEN cfg)) (race_name r) w = (Rejects, w1)"
  then show q: "queryByRaceName cfg env (race_name r) w
      = (Inl TransportError, [Query (the (DB_ID cfg)) (race_name r)], w1)"
    by (simp add: query_rejects)
  from upsert_after_query [of cfg env r w, OF _ q] c
  show "upsertRaceToNotion cfg env r w
      = (Inl TransportError, [Query (the (DB_ID cfg)) (race_name r)], w1)"
    by simp
next
  fix existing cs w1 p ps w2
  assume "truthy (DB_ID cfg)" "queryByRaceName cfg env (race_name r) w = (Inr existing, cs, w1)"
    "existing = p # ps
      \<and> pages_update env (NOTION_TOKEN cfg) (page_id p) (buildProperties r) w1 = (Rejects, w2)"
  then show "fst (upsertRaceToNotion cfg env r w) = Inl ApiError"
    using upsert_write_rejects [of cfg env r w existing cs w1] by blast
next
  fix existing cs w1 w2
  assume "truthy (DB_ID cfg)" "queryByRaceName cfg env (race_name r) w = (Inr existing, cs, w1)"
    "existing = []
      \<and> pages_create env (NOTION_TOKEN cfg) (the (DB_ID cfg)) (buildProperties r) w1 = (Rejects, w2)"
  then show "fst (upsertRaceToNotion cfg env r w) = Inl ApiError"
    using upsert_write_rejects [of cfg env r w existing cs w1] by blast
qed

theorem query_failures_witness:
  "queryByRaceName \<lparr>NOTION_TOKEN = None, DB_ID = Some (asc ''db'')\<rparr> store_env (asc ''A'') []
     = (Inr [], [], [])
   \<and> calls_of (upsertRaceToNotion cfg_ok
        (const_env (Resolves \<lparr>ok = False, results = Rejects\<rparr>) (Resolves ()) (Resolves ()))
        (race_named (asc ''A'')) ())
     = [Query (asc ''db'') (asc ''A''), Create (asc ''db'') (buildProperties (race_named (asc ''A'')))]
   \<and> upsertRaceToNotion cfg_ok (const_env Rejects (Resolves ()) (Resolves ()))
        (race_named (asc ''A'')) ()
     = (Inl TransportError, [Query (asc ''db'') (asc ''A'')], ())
   \<and> fst (upsertRaceToNotion cfg_ok store_env (race_named (asc ''A'')) []) = Inr ()
   \<and> fst (upsertRaceToNotion cfg_ok
        (const_env (Resolves \<lparr>ok = True, results = Resolves None\<rparr>) (Resolves ()) Rejects)
        (race_named (asc ''A'')) ())
     = Inl ApiError"
proof -
  let ?r = "race_named (asc ''A'')"
  let ?e1 = "const_env (Resolves \<lparr>ok = False, results = Rejects\<rparr>) (Resolves ()) (Resolves ())"
  let ?e2 = "const_env Rejects (Resolves ()) (Resolves ())"
  let ?e3 = "const_env (Resolves \<lparr>ok = True, results = Resolves None\<rparr>) (Resolves ()) Rejects"
  let ?c0 = "\<lparr>NOTION_TOKEN = None, DB_ID = Some (asc ''db'')\<rparr>"
  have c: "truthy (DB_ID cfg_ok)" "truthy (NOTION_TOKEN cfg_ok)"
    by (simp_all add: cfg_ok_def asc_def)
  have n: "race_name ?r = asc ''A''" "the (DB_ID cfg_ok) = asc ''db''"
    by (simp_all add: race_named_def cfg_ok_def)
  have 1: "queryByRaceName ?c0 store_env (asc ''A'') [] = (Inr [], [], [])"
    using query_failures [of ?c0 store_env "asc ''A''" "[]" ?r] by simp
  have f1: "fetch_query ?e1 (the (DB_ID cfg_ok)) (the (NOTION_TOKEN cfg_ok)) (race_name ?r) ()
      = (Resolves \<lparr>ok = False, results = Rejects\<rparr>, ())"
    by (simp add: const_env_def)
  have 2: "calls_of (upsertRaceToNotion cfg_ok ?e1 ?r ())
      = [Query (the (DB_ID cfg_ok)) (race_name ?r), Create (the (DB_ID cfg_ok)) (buildProperties ?r)]"
    using query_failures [of cfg_ok ?e1 "asc ''A''" "()" ?r] c f1 by simp
  have f2: "fetch_query ?e2 (the (DB_ID cfg_ok)) (the (NOTION_TOKEN cfg_ok)) (race_name ?r) ()
      = (Rejects, ())"
    by (simp add: const_env_def)
  have 3: "upsertRaceToNotion cfg_ok ?e2 ?r ()
      = (Inl TransportError, [Query (the (DB_ID cfg_ok)) (race_name ?r)], ())"
    using query_failures [of cfg_ok ?e2 "asc ''A''" "()" ?r] c f2 by simp
  have 4: "fst (upsertRaceToNotion cfg_ok store_env ?r []) = Inr ()"
    by (simp add: notion_eval asc_def)
  have q3: "queryByRaceName cfg_ok ?e3 (race_name ?r) ()
      = (Inr [], [Query (the (DB_ID cfg_ok)) (race_name ?r)], ())"
    by (simp add: queryByRaceName_def const_env_def cfg_ok_def asc_def)
  have w3: "pages_create ?e3 (NOTION_TOKEN cfg_ok) (the (DB_ID cfg_ok)) (buildProperties ?r) ()
      = (Rejects, ())"
    by (simp add: const_env_def)
  have 5: "fst (upsertRaceToNotion cfg_ok ?e3 ?r ()) = Inl ApiError"
    using query_failures [of cfg_ok ?e3 "asc ''A''" "()" ?r] c q3 w3 by blast
  from 1 2 3 4 5 show ?thesis by (simp only: n)
qed

text \<open>
  Claim C10. For a record with the empty name the mapped properties carry the
  placeholder as title, which differs from the record's name; with the store configured
  the upsert's first request is the query for the empty name, and every later request is
  an update or a create with those properties.
\<close>

theorem empty_name_title:
  "race_name r = [] \<longrightarrow>
     Name_title (buildProperties r) = no_title
     \<and> Name_title (buildProperties r) \<noteq> race_name r
     \<and> (truthy (DB_ID cfg) \<and> truthy (NOTION_TOKEN cfg) \<longrightarrow>
          (\<exists>cs. calls_of (upsertRaceToNotion cfg env r w) = Query (the (DB_ID cfg)) [] # cs
             \<and> list_all (\<lambda>c. (\<exists>pid. c = Update pid (buildProperties r))
                              \<or> c = Create (the (DB_ID cfg)) (buildProperties r)) cs))"
proof (intro impI conjI)
  assume e: "race_name r = []"
  then show t: "Name_title (buildProperties r) = no_title"
    by (simp add: buildProperties_def Let_def)
  with e no_title_nonempty show "Name_title (buildProperties r) \<noteq> race_name r"
    by simp
  assume c: "truthy (DB_ID cfg) \<and> truthy (NOTION_TOKEN cfg)"
  then obtain res w1 where
    q: "queryByRaceName cfg env (race_name r) w = (res, [Query (the (DB_ID cfg)) (race_name r)], w1)"
    using query_calls [of cfg env "race_name r" w] by blast
  note u = upsert_after_query [of cfg env r w, OF _ q]
  show "\<exists>cs. calls_of (upsertRaceToNotion cfg env r w) = Query (the (DB_ID cfg)) [] # cs
      \<and> list_all (\<lambda>c. (\<exists>pid. c = Update pid (buildProperties r))
                       \<or> c = Create (the (DB_ID cfg)) (buildProperties r)) cs"
  proof (cases res)
    case (Inl err)
    with u c have "calls_of (upsertRaceToNotion cfg env r w) = [Query (the (DB_ID cfg)) []]"
      by (simp add: calls_of_def e)
    then show ?thesis by simp
  next
    case (Inr existing)
    show ?thesis
    proof (cases existing)
      case Nil
      with Inr u c show ?thesis by (simp add: e)
    next
      case (Cons p ps)
      with Inr u c show ?thesis by (simp add: e)
    qed
  qed
qed

theorem empty_name_title_witness:
  "Name_title (buildProperties (race_named [])) = no_title
   \<and> calls_of (upsertRaceToNotion cfg_ok store_env (race_named []) [])
     = [Query (asc ''db'') [], Create (asc ''db'') (buildProperties (race_named []))]"
proof -
  have e: "race_name (race_named []) = []" by (simp add: race_named_def)
  have c: "truthy (DB_ID cfg_ok) \<and> truthy (NOTION_TOKEN cfg_ok)"
    by (simp add: cfg_ok_def asc_def)
  have 2: "calls_of (upsertRaceToNotion cfg_ok store_env (race_named []) [])
     = [Query (asc ''db'') [], Create (asc ''db'') (buildProperties (race_named []))]"
    by (simp add: notion_eval asc_def)
  from empty_name_title [of "race_named []" cfg_ok store_env "[]"] e c 2
  show ?thesis by simp
qed

end
